theory Spec2Isabelle
  imports Main
begin

section \<open>Strings\<close>

text \<open>
  A string is a list of bytes, the UTF-8 form of the JavaScript string. The catalog is ASCII
  apart from one dash, which is kept as its three bytes.

  \<open>toLowerCase\<close> folds the letters A to Z, and the Kelvin sign (U+212A, three bytes) to
  the letter k: it is the one character outside ASCII whose lower case in JavaScript is
  all ASCII. Other characters are left alone. JavaScript lowers the upper-case letters among
  them to text with a character outside ASCII that no text of the catalog contains, so on
  the catalog a query is found by this function exactly when it is found by the JavaScript
  method.
\<close>

definition lower_char :: "char \<Rightarrow> char" where
  "lower_char c =
     (let n = (of_char c :: nat) in if 65 \<le> n \<and> n \<le> 90 then char_of (n + 32) else c)"

fun toLowerCase :: "string \<Rightarrow> string" where
  "toLowerCase [] = []"
| "toLowerCase (c # s) =
     (if c = CHR 0xE2
      then (if take 2 s = [CHR 0x84, CHR 0xAA] then CHR ''k'' # toLowerCase (drop 2 s)
            else lower_char c # toLowerCase s)
      else lower_char c # toLowerCase s)"

fun startsWith :: "string \<Rightarrow> string \<Rightarrow> bool" where
  "startsWith t [] = True"
| "startsWith [] (c # q) = False"
| "startsWith (d # t) (c # q) = (d = c \<and> startsWith t q)"

text \<open>\<open>str_includes t q\<close> is \<open>t.includes(q)\<close>: \<open>q\<close> occurs in \<open>t\<close> as a contiguous run.\<close>

fun str_includes :: "string \<Rightarrow> string \<Rightarrow> bool" where
  "str_includes [] q = (q = [])"
| "str_includes (d # t) q = (startsWith (d # t) q \<or> str_includes t q)"

text \<open>\<open>join sep xs\<close> is \<open>xs.join(sep)\<close>.\<close>

fun join :: "string \<Rightarrow> string list \<Rightarrow> string" where
  "join sep [] = []"
| "join sep [x] = x"
| "join sep (x # y # ys) = x @ sep @ join sep (y # ys)"

section \<open>The catalog (constants.ts)\<close>

datatype ApiStatus = StatusStable | StatusInitial | StatusSandbox | StatusIncubating

fun status_id :: "ApiStatus \<Rightarrow> string" where
  "status_id StatusStable = ''stable''"
| "status_id StatusInitial = ''initial''"
| "status_id StatusSandbox = ''sandbox''"
| "status_id StatusIncubating = ''incubating''"

datatype ApiCategory =
  AuthFraud | Location | Communication | CommunicationQuality
  | DeviceInfo | Computing | Payments | Identity

fun category_id :: "ApiCategory \<Rightarrow> string" where
  "category_id AuthFraud = ''auth-fraud''"
| "category_id Location = ''location''"
| "category_id Communication = ''communication''"
| "category_id CommunicationQuality = ''communication-quality''"
| "category_id DeviceInfo = ''device-info''"
| "category_id Computing = ''computing''"
| "category_id Payments = ''payments''"
| "category_id Identity = ''identity''"

definition CAMARA_BASE_URL :: string where
  "CAMARA_BASE_URL = ''https://github.com/camaraproject''"

record CamaraApi =
  api_name :: string
  api_slug :: string
  api_category :: ApiCategory
  api_status :: ApiStatus
  api_description :: string
  api_useCases :: "string list"
  api_latestVersion :: string
  api_previousVersions :: "string list"
  api_repository :: string
  api_websiteUrl :: string
  api_specUrl :: string
  api_industries :: "string list"
  api_authFlow :: string
  api_httpMethods :: "string list"
  api_keyEndpoints :: "string list"

record InitialApi =
  ini_name :: string
  ini_slug :: string
  ini_category :: ApiCategory
  ini_version :: string
  ini_repository :: string
  ini_description :: string

definition number_verification :: CamaraApi where
  \<open>number_verification = \<lparr>
    api_name = ''Number Verification'',
    api_slug = ''number-verification'',
    api_category = AuthFraud,
    api_status = StatusStable,
    api_description = ''Confirms ownership of a mobile phone number by matching it against the network-authenticated identity. Eliminates SMS OTP friction. Two mechanisms: network-based (operator knows subscriber) and SIM-based (subscriber SIM authentication).'',
    api_useCases = [''Account creation with phone number verification'', ''Secure login without SMS OTP'', ''Transaction validation for banking/fintech'', ''Account recovery and device migration'', ''Anti-fraud: prevent SIM swap account takeover''],
    api_latestVersion = ''2.1.0'',
    api_previousVersions = [''2.0.0'', ''1.0.0''],
    api_repository = ''NumberVerification'',
    api_websiteUrl = ''https://camaraproject.org/number-verification/'',
    api_specUrl = CAMARA_BASE_URL @ ''/NumberVerification'',
    api_industries = [''Banking'', ''E-Commerce'', ''Healthcare'', ''Insurance'', ''Fintech''],
    api_authFlow = ''OIDC Authorization Code Flow (3-legged)'',
    api_httpMethods = [''POST''],
    api_keyEndpoints = [''POST /number-verifications/v2/verify - Verify phone number ownership'', ''POST /number-verifications/v2/device-phone-number - Retrieve device phone number''] \<rparr>\<close>

definition sim_swap :: CamaraApi where
  \<open>sim_swap = \<lparr>
    api_name = ''SIM Swap'',
    api_slug = ''sim-swap'',
    api_category = AuthFraud,
    api_status = StatusStable,
    api_description = ''Detects whether a SIM card swap has occurred on a mobile line within a specified time window. Returns boolean or timestamp of last swap. Critical for fraud prevention in financial services.'',
    api_useCases = [''Fraud detection during high-value transactions'', ''Account takeover prevention'', ''KYC enhancement for onboarding'', ''Insurance claim validation'', ''Risk scoring for lending decisions''],
    api_latestVersion = ''2.1.0'',
    api_previousVersions = [''2.0.0'', ''1.0.0''],
    api_repository = ''SimSwap'',
    api_websiteUrl = ''https://camaraproject.org/sim-swap/'',
    api_specUrl = CAMARA_BASE_URL @ ''/SimSwap'',
    api_industries = [''Banking'', ''Fintech'', ''Insurance'', ''Payments''],
    api_authFlow = ''OIDC Client Credentials (2-legged) or Authorization Code (3-legged)'',
    api_httpMethods = [''POST''],
    api_keyEndpoints = [''POST /sim-swap/v2/check - Check if SIM swap occurred in time window'', ''POST /sim-swap/v2/retrieve-date - Get date of last SIM swap''] \<rparr>\<close>

definition location_verification :: CamaraApi where
  \<open>location_verification = \<lparr>
    api_name = ''Location Verification'',
    api_slug = ''location-verification'',
    api_category = Location,
    api_status = StatusStable,
    api_description = ''Determines whether a mobile device is within the proximity of a specified geographical area (circle with lat/lng center and radius). Network-based location verification without requiring device-side GPS permissions.'',
    api_useCases = [''Fraud prevention for location-dependent banking transactions'', ''Insurance claim geolocation validation'', ''Age-gated content delivery verification'', ''Logistics and delivery confirmation'', ''Regulatory compliance (geo-restriction enforcement)''],
    api_latestVersion = ''3.0.0'',
    api_previousVersions = [''2.0.0'', ''1.0.0''],
    api_repository = ''DeviceLocation'',
    api_websiteUrl = ''https://camaraproject.org/location-verification/'',
    api_specUrl = CAMARA_BASE_URL @ ''/DeviceLocation'',
    api_industries = [''Banking'', ''Insurance'', ''Logistics'', ''Retail'', ''Government''],
    api_authFlow = ''OIDC Authorization Code Flow (3-legged)'',
    api_httpMethods = [''POST''],
    api_keyEndpoints = [''POST /location-verification/v3/verify - Verify device is within area''] \<rparr>\<close>

definition device_reachability_status :: CamaraApi where
  \<open>device_reachability_status = \<lparr>
    api_name = ''Device Reachability Status'',
    api_slug = ''device-reachability-status'',
    api_category = DeviceInfo,
    api_status = StatusStable,
    api_description = ''Checks whether a mobile device is currently reachable on the network (connected, not connected, or SMS-only). Supports event subscriptions for status change notifications.'',
    api_useCases = [''IoT device monitoring and health checks'', ''Optimizing push notification delivery'', ''Customer engagement timing'', ''Service level agreement monitoring'', ''Emergency communications readiness''],
    api_latestVersion = ''1.1.0'',
    api_previousVersions = [''1.0.0'', ''0.6.1''],
    api_repository = ''DeviceReachabilityStatus'',
    api_websiteUrl = ''https://camaraproject.org/device-reachability-status/'',
    api_specUrl = CAMARA_BASE_URL @ ''/DeviceReachabilityStatus'',
    api_industries = [''IoT'', ''Telecom'', ''Logistics'', ''Healthcare''],
    api_authFlow = ''OIDC Client Credentials (2-legged)'',
    api_httpMethods = [''POST''],
    api_keyEndpoints = [''POST /device-reachability-status/v1/retrieve - Get current reachability status''] \<rparr>\<close>

definition device_roaming_status :: CamaraApi where
  \<open>device_roaming_status = \<lparr>
    api_name = ''Device Roaming Status'',
    api_slug = ''device-roaming-status'',
    api_category = DeviceInfo,
    api_status = StatusStable,
    api_description = ''Determines whether a mobile device is currently roaming and, if so, in which country. Supports event subscriptions for roaming status changes.'',
    api_useCases = [''Personalized pricing based on roaming status'', ''Compliance with data sovereignty requirements'', ''Travel insurance activation'', ''Fraud detection (unexpected roaming)'', ''Content and service adaptation by region''],
    api_latestVersion = ''1.1.0'',
    api_previousVersions = [''1.0.0'', ''0.6.1''],
    api_repository = ''DeviceRoamingStatus'',
    api_websiteUrl = ''https://camaraproject.org/device-roaming-status/'',
    api_specUrl = CAMARA_BASE_URL @ ''/DeviceRoamingStatus'',
    api_industries = [''Travel'', ''Insurance'', ''Banking'', ''Telecom''],
    api_authFlow = ''OIDC Client Credentials (2-legged)'',
    api_httpMethods = [''POST''],
    api_keyEndpoints = [''POST /device-roaming-status/v1/retrieve - Get current roaming status''] \<rparr>\<close>

definition one_time_password_sms :: CamaraApi where
  \<open>one_time_password_sms = \<lparr>
    api_name = ''One-Time Password SMS'',
    api_slug = ''one-time-password-sms'',
    api_category = AuthFraud,
    api_status = StatusStable,
    api_description = ''Sends short-lived OTPs to a phone number via SMS and validates them. Network-based delivery without relying on third-party SMS aggregators. Operator-grade delivery assurance.'',
    api_useCases = [''Two-factor authentication'', ''Account recovery verification'', ''Transaction confirmation'', ''Secure sign-up flows'', ''Passwordless authentication''],
    api_latestVersion = ''1.1.1'',
    api_previousVersions = [''1.1.0'', ''1.0.0''],
    api_repository = ''OTPValidation'',
    api_websiteUrl = ''https://camaraproject.org/one-time-password-sms/'',
    api_specUrl = CAMARA_BASE_URL @ ''/OTPValidation'',
    api_industries = [''Banking'', ''E-Commerce'', ''Healthcare'', ''SaaS''],
    api_authFlow = ''OIDC Client Credentials (2-legged)'',
    api_httpMethods = [''POST''],
    api_keyEndpoints = [''POST /otp/v1/send-code - Send OTP to phone number'', ''POST /otp/v1/validate-code - Validate received OTP''] \<rparr>\<close>

definition quality_on_demand :: CamaraApi where
  \<open>quality_on_demand = \<lparr>
    api_name = ''Quality on Demand'',
    api_slug = ''quality-on-demand'',
    api_category = CommunicationQuality,
    api_status = StatusStable,
    api_description = ''Request and manage specific network quality (bandwidth, latency) for a device session. Enables premium network performance for latency-sensitive applications like gaming, video, and AR/VR.'',
    api_useCases = [''Cloud gaming session quality guarantee'', ''Video conferencing quality boost'', ''AR/VR experience optimization'', ''Live streaming priority bandwidth'', ''Industrial IoT critical communications''],
    api_latestVersion = ''1.1.0'',
    api_previousVersions = [''1.0.0'', ''0.11.1''],
    api_repository = ''QualityOnDemand'',
    api_websiteUrl = ''https://camaraproject.org/quality-on-demand/'',
    api_specUrl = CAMARA_BASE_URL @ ''/QualityOnDemand'',
    api_industries = [''Gaming'', ''Media'', ''AR/VR'', ''Enterprise'', ''IoT''],
    api_authFlow = ''OIDC Client Credentials (2-legged) or Authorization Code (3-legged)'',
    api_httpMethods = [''POST'', ''GET'', ''DELETE''],
    api_keyEndpoints = [''POST /qod/v1/sessions - Create QoS session'', ''GET /qod/v1/sessions/{sessionId} - Get session status'', ''DELETE /qod/v1/sessions/{sessionId} - Terminate session''] \<rparr>\<close>

definition qos_profiles :: CamaraApi where
  \<open>qos_profiles = \<lparr>
    api_name = ''QoS Profiles'',
    api_slug = ''qos-profiles'',
    api_category = CommunicationQuality,
    api_status = StatusStable,
    api_description = ''Discover available Quality of Service profiles offered by a network operator. Profiles define bandwidth, latency, and jitter parameters that can be requested via the Quality on Demand API.'',
    api_useCases = [''Service catalog discovery'', ''Dynamic QoS profile selection'', ''Network capability assessment'', ''SLA-based service provisioning''],
    api_latestVersion = ''1.1.0'',
    api_previousVersions = [''1.0.0'', ''0.11.1''],
    api_repository = ''QualityOnDemand'',
    api_websiteUrl = ''https://camaraproject.org/qos-profiles/'',
    api_specUrl = CAMARA_BASE_URL @ ''/QualityOnDemand'',
    api_industries = [''Gaming'', ''Media'', ''Enterprise'', ''IoT''],
    api_authFlow = ''OIDC Client Credentials (2-legged)'',
    api_httpMethods = [''GET''],
    api_keyEndpoints = [''GET /qos-profiles/v1 - List available QoS profiles'', ''GET /qos-profiles/v1/{profileId} - Get profile details''] \<rparr>\<close>

definition simple_edge_discovery :: CamaraApi where
  \<open>simple_edge_discovery = \<lparr>
    api_name = ''Simple Edge Discovery'',
    api_slug = ''simple-edge-discovery'',
    api_category = Computing,
    api_status = StatusStable,
    api_description = ''Discover optimal Multi-access Edge Computing (MEC) endpoints closest to a user's device. Enables low-latency edge deployment for applications requiring proximity computing.'',
    api_useCases = [''Edge application deployment optimization'', ''Latency-sensitive workload placement'', ''CDN edge node selection'', ''Mobile gaming server selection'', ''AR/VR edge rendering''],
    api_latestVersion = ''2.0.0'',
    api_previousVersions = [''1.0.0''],
    api_repository = ''SimpleEdgeDiscovery'',
    api_websiteUrl = ''https://camaraproject.org/simple-edge-discovery/'',
    api_specUrl = CAMARA_BASE_URL @ ''/SimpleEdgeDiscovery'',
    api_industries = [''Gaming'', ''AR/VR'', ''CDN'', ''Cloud'', ''IoT''],
    api_authFlow = ''OIDC Client Credentials (2-legged)'',
    api_httpMethods = [''GET''],
    api_keyEndpoints = [''GET /edge-discovery/v2/mec-platforms - Discover nearest MEC platforms''] \<rparr>\<close>

definition device_swap :: CamaraApi where
  \<open>device_swap = \<lparr>
    api_name = ''Device Swap'',
    api_slug = ''device-swap'',
    api_category = DeviceInfo,
    api_status = StatusStable,
    api_description = ''Detects whether the physical device (IMEI) associated with a mobile subscription has changed. Similar to SIM Swap but tracks the hardware device rather than the SIM card.'',
    api_useCases = [''Fraud detection (unexpected device changes)'', ''Device financing risk management'', ''Insurance claim validation'', ''Account security monitoring'', ''Customer lifecycle management''],
    api_latestVersion = ''1.0.0'',
    api_previousVersions = [''0.2.0''],
    api_repository = ''DeviceSwap'',
    api_websiteUrl = ''https://camaraproject.org/device-swap/'',
    api_specUrl = CAMARA_BASE_URL @ ''/DeviceSwap'',
    api_industries = [''Banking'', ''Insurance'', ''Device Finance'', ''Telecom''],
    api_authFlow = ''OIDC Client Credentials (2-legged) or Authorization Code (3-legged)'',
    api_httpMethods = [''POST''],
    api_keyEndpoints = [''POST /device-swap/v1/check - Check if device swap occurred'', ''POST /device-swap/v1/retrieve-date - Get date of last device swap''] \<rparr>\<close>

definition STABLE_APIS :: "CamaraApi list" where
  "STABLE_APIS = [number_verification,
    sim_swap,
    location_verification,
    device_reachability_status,
    device_roaming_status,
    one_time_password_sms,
    quality_on_demand,
    qos_profiles,
    simple_edge_discovery,
    device_swap]"

definition application_profiles :: InitialApi where
  \<open>application_profiles = \<lparr>
    ini_name = ''Application Profiles'',
    ini_slug = ''application-profiles'',
    ini_category = CommunicationQuality,
    ini_version = ''0.5.0'',
    ini_repository = ''ApplicationProfiles'',
    ini_description = ''Define and manage application requirements for network service optimization.'' \<rparr>\<close>

definition call_forwarding_signal :: InitialApi where
  \<open>call_forwarding_signal = \<lparr>
    ini_name = ''Call Forwarding Signal'',
    ini_slug = ''call-forwarding-signal'',
    ini_category = AuthFraud,
    ini_version = ''0.4.0'',
    ini_repository = ''CallForwardingSignal'',
    ini_description = ''Detect if a phone number has call forwarding enabled '' @ [CHR 0xE2, CHR 0x80, CHR 0x94] @ '' fraud prevention signal.'' \<rparr>\<close>

definition carrier_billing :: InitialApi where
  \<open>carrier_billing = \<lparr>
    ini_name = ''Carrier Billing'',
    ini_slug = ''carrier-billing'',
    ini_category = Payments,
    ini_version = ''0.5.0'',
    ini_repository = ''CarrierBillingCheckOut'',
    ini_description = ''Charge digital content purchases to the mobile subscriber's bill.'' \<rparr>\<close>

definition connectivity_insights :: InitialApi where
  \<open>connectivity_insights = \<lparr>
    ini_name = ''Connectivity Insights'',
    ini_slug = ''connectivity-insights'',
    ini_category = CommunicationQuality,
    ini_version = ''0.5.0'',
    ini_repository = ''ConnectivityInsights'',
    ini_description = ''Network quality predictions and monitoring for application sessions.'' \<rparr>\<close>

definition customer_insights :: InitialApi where
  \<open>customer_insights = \<lparr>
    ini_name = ''Customer Insights'',
    ini_slug = ''customer-insights'',
    ini_category = Identity,
    ini_version = ''0.2.0'',
    ini_repository = ''CustomerInsights'',
    ini_description = ''Anonymized aggregate insights about customer segments.'' \<rparr>\<close>

definition device_identifier :: InitialApi where
  \<open>device_identifier = \<lparr>
    ini_name = ''Device Identifier'',
    ini_slug = ''device-identifier'',
    ini_category = DeviceInfo,
    ini_version = ''0.3.0'',
    ini_repository = ''DeviceIdentifier'',
    ini_description = ''Retrieve device model information (TAC/IMEI) for the authenticated subscriber.'' \<rparr>\<close>

definition geofencing_subscriptions :: InitialApi where
  \<open>geofencing_subscriptions = \<lparr>
    ini_name = ''Geofencing Subscriptions'',
    ini_slug = ''geofencing-subscriptions'',
    ini_category = Location,
    ini_version = ''0.4.0'',
    ini_repository = ''DeviceLocation'',
    ini_description = ''Subscribe to notifications when a device enters or exits a defined geographical area.'' \<rparr>\<close>

definition kyc_age_verification :: InitialApi where
  \<open>kyc_age_verification = \<lparr>
    ini_name = ''KYC Age Verification'',
    ini_slug = ''kyc-age-verification'',
    ini_category = Identity,
    ini_version = ''0.2.0'',
    ini_repository = ''KnowYourCustomerAgeVerification'',
    ini_description = ''Verify if a subscriber meets a minimum age threshold without revealing actual age.'' \<rparr>\<close>

definition kyc_fill_in :: InitialApi where
  \<open>kyc_fill_in = \<lparr>
    ini_name = ''KYC Fill-In'',
    ini_slug = ''kyc-fill-in'',
    ini_category = Identity,
    ini_version = ''0.4.0'',
    ini_repository = ''KnowYourCustomerFill-in'',
    ini_description = ''Auto-fill customer identity data from operator records for onboarding.'' \<rparr>\<close>

definition kyc_match :: InitialApi where
  \<open>kyc_match = \<lparr>
    ini_name = ''KYC Match'',
    ini_slug = ''kyc-match'',
    ini_category = Identity,
    ini_version = ''0.5.0'',
    ini_repository = ''KnowYourCustomer'',
    ini_description = ''Verify customer-provided identity attributes against operator records.'' \<rparr>\<close>

definition kyc_tenure :: InitialApi where
  \<open>kyc_tenure = \<lparr>
    ini_name = ''KYC Tenure'',
    ini_slug = ''kyc-tenure'',
    ini_category = Identity,
    ini_version = ''0.2.0'',
    ini_repository = ''Tenure'',
    ini_description = ''Verify the length of tenure for a subscriber with their current operator.'' \<rparr>\<close>

definition location_retrieval :: InitialApi where
  \<open>location_retrieval = \<lparr>
    ini_name = ''Location Retrieval'',
    ini_slug = ''location-retrieval'',
    ini_category = Location,
    ini_version = ''0.5.0'',
    ini_repository = ''DeviceLocation'',
    ini_description = ''Retrieve the approximate location of a mobile device from the network.'' \<rparr>\<close>

definition number_recycling :: InitialApi where
  \<open>number_recycling = \<lparr>
    ini_name = ''Number Recycling'',
    ini_slug = ''number-recycling'',
    ini_category = AuthFraud,
    ini_version = ''0.2.0'',
    ini_repository = ''NumberRecycling'',
    ini_description = ''Detect if a phone number has been reassigned to a new subscriber.'' \<rparr>\<close>

definition population_density_data :: InitialApi where
  \<open>population_density_data = \<lparr>
    ini_name = ''Population Density Data'',
    ini_slug = ''population-density-data'',
    ini_category = Location,
    ini_version = ''0.4.0'',
    ini_repository = ''PopulationDensityData'',
    ini_description = ''Anonymized population density estimates based on network data.'' \<rparr>\<close>

definition region_device_count :: InitialApi where
  \<open>region_device_count = \<lparr>
    ini_name = ''Region Device Count'',
    ini_slug = ''region-device-count'',
    ini_category = Location,
    ini_version = ''0.2.0'',
    ini_repository = ''RegionDeviceCount'',
    ini_description = ''Count of devices in a defined geographical region.'' \<rparr>\<close>

definition scam_signal :: InitialApi where
  \<open>scam_signal = \<lparr>
    ini_name = ''Scam Signal'',
    ini_slug = ''scam-signal'',
    ini_category = AuthFraud,
    ini_version = ''0.3.1'',
    ini_repository = ''ScamSignal'',
    ini_description = ''Real-time scam call detection signals for fraud prevention.'' \<rparr>\<close>

definition verified_caller :: InitialApi where
  \<open>verified_caller = \<lparr>
    ini_name = ''Verified Caller'',
    ini_slug = ''verified-caller'',
    ini_category = AuthFraud,
    ini_version = ''0.2.0'',
    ini_repository = ''VerifiedCaller'',
    ini_description = ''Prove caller authenticity to eliminate phone scams and spoofing.'' \<rparr>\<close>

definition webrtc :: InitialApi where
  \<open>webrtc = \<lparr>
    ini_name = ''WebRTC'',
    ini_slug = ''webrtc'',
    ini_category = Communication,
    ini_version = ''0.1.0'',
    ini_repository = ''WebRTC'',
    ini_description = ''Browser-based real-time communication with network quality integration.'' \<rparr>\<close>

definition sms :: InitialApi where
  \<open>sms = \<lparr>
    ini_name = ''SMS'',
    ini_slug = ''sms'',
    ini_category = Communication,
    ini_version = ''0.1.0'',
    ini_repository = ''ShortMessageService'',
    ini_description = ''Send and receive SMS messages through standardized API.'' \<rparr>\<close>

definition connected_network_type :: InitialApi where
  \<open>connected_network_type = \<lparr>
    ini_name = ''Connected Network Type'',
    ini_slug = ''connected-network-type'',
    ini_category = DeviceInfo,
    ini_version = ''0.1.0'',
    ini_repository = ''DeviceStatus'',
    ini_description = ''Identify the network technology (4G/5G/WiFi) a device is connected to.'' \<rparr>\<close>

definition blockchain_public_address :: InitialApi where
  \<open>blockchain_public_address = \<lparr>
    ini_name = ''Blockchain Public Address'',
    ini_slug = ''blockchain-public-address'',
    ini_category = Identity,
    ini_version = ''0.1.0'',
    ini_repository = ''BlockchainPublicAddress'',
    ini_description = ''Associate blockchain wallet addresses with mobile identities.'' \<rparr>\<close>

definition INITIAL_APIS :: "InitialApi list" where
  "INITIAL_APIS = [application_profiles,
    call_forwarding_signal,
    carrier_billing,
    connectivity_insights,
    customer_insights,
    device_identifier,
    geofencing_subscriptions,
    kyc_age_verification,
    kyc_fill_in,
    kyc_match,
    kyc_tenure,
    location_retrieval,
    number_recycling,
    population_density_data,
    region_device_count,
    scam_signal,
    verified_caller,
    webrtc,
    sms,
    connected_network_type,
    blockchain_public_address]"

section \<open>Search (services/catalog.ts)\<close>

text \<open>The argument of \<open>searchScore\<close> is a \<open>CamaraApi | InitialApi\<close>.\<close>

datatype AnyApi = OfStable CamaraApi | OfInitial InitialApi

fun name_of :: "AnyApi \<Rightarrow> string" where
  "name_of (OfStable a) = api_name a"
| "name_of (OfInitial a) = ini_name a"

fun slug_of :: "AnyApi \<Rightarrow> string" where
  "slug_of (OfStable a) = api_slug a"
| "slug_of (OfInitial a) = ini_slug a"

fun category_of :: "AnyApi \<Rightarrow> string" where
  "category_of (OfStable a) = category_id (api_category a)"
| "category_of (OfInitial a) = category_id (ini_category a)"

fun description_of :: "AnyApi \<Rightarrow> string" where
  "description_of (OfStable a) = api_description a"
| "description_of (OfInitial a) = ini_description a"

text \<open>
  The loop \<open>for (const x of xs) { if (x.toLowerCase().includes(q)) { score += w; break; } }\<close>,
  as a function of the score on entry.
\<close>

fun add_first_hit :: "int \<Rightarrow> string list \<Rightarrow> string \<Rightarrow> int \<Rightarrow> int" where
  "add_first_hit w [] q score = score"
| "add_first_hit w (x # xs) q score =
     (if str_includes (toLowerCase x) q then score + w else add_first_hit w xs q score)"

definition searchScore :: "AnyApi \<Rightarrow> string \<Rightarrow> int" where
  "searchScore api query =
     (let q = toLowerCase query;
          score = 0;
          score = (if str_includes (toLowerCase (name_of api)) q then score + 10 else score);
          score = (if str_includes (slug_of api) q then score + 8 else score);
          score = (if str_includes (category_of api) q then score + 5 else score);
          score = (if str_includes (toLowerCase (description_of api)) q then score + 3 else score);
          score = (case api of
                     OfStable a \<Rightarrow> add_first_hit 2 (api_useCases a) q score
                   | OfInitial _ \<Rightarrow> score);
          score = (case api of
                     OfStable a \<Rightarrow> add_first_hit 4 (api_industries a) q score
                   | OfInitial _ \<Rightarrow> score)
      in score)"


text \<open>
  An optional argument that is \<open>undefined\<close> is \<open>None\<close>. In a condition such as
  \<open>category && ...\<close> the empty string counts as absent too.
\<close>

definition truthy :: "string option \<Rightarrow> bool" where
  "truthy s = (case s of None \<Rightarrow> False | Some t \<Rightarrow> t \<noteq> [])"

record ApiSearchResult =
  res_name :: string
  res_slug :: string
  res_category :: string
  res_status :: string
  res_version :: string
  res_description :: string
  res_repository_url :: string
  res_website_url :: "string option"

record 'a PaginatedResponse =
  pg_total :: int
  pg_count :: int
  pg_offset :: int
  pg_items :: "'a list"
  pg_has_more :: bool
  pg_next_offset :: "int option"

definition toSearchResult :: "CamaraApi \<Rightarrow> ApiSearchResult" where
  "toSearchResult api =
     \<lparr> res_name = api_name api,
       res_slug = api_slug api,
       res_category = category_id (api_category api),
       res_status = status_id (api_status api),
       res_version = api_latestVersion api,
       res_description = api_description api,
       res_repository_url = api_specUrl api,
       res_website_url = Some (api_websiteUrl api) \<rparr>"

definition initialToSearchResult :: "InitialApi \<Rightarrow> ApiSearchResult" where
  "initialToSearchResult api =
     \<lparr> res_name = ini_name api,
       res_slug = ini_slug api,
       res_category = category_id (ini_category api),
       res_status = ''initial'',
       res_version = ini_version api,
       res_description = ini_description api,
       res_repository_url = CAMARA_BASE_URL @ ''/'' @ ini_repository api,
       res_website_url = None \<rparr>"

text \<open>The two callbacks handed to \<open>filter\<close>.\<close>

definition stableFilter ::
  "string option \<Rightarrow> string option \<Rightarrow> string option \<Rightarrow> CamaraApi \<Rightarrow> bool" where
  "stableFilter query category status api =
     (if truthy category \<and> category_id (api_category api) \<noteq> the category then False
      else if truthy status \<and> status_id (api_status api) \<noteq> the status then False
      else if truthy query \<and> searchScore (OfStable api) (the query) = 0 then False
      else True)"

definition initialFilter ::
  "string option \<Rightarrow> string option \<Rightarrow> string option \<Rightarrow> InitialApi \<Rightarrow> bool" where
  "initialFilter query category status api =
     (if truthy category \<and> category_id (ini_category api) \<noteq> the category then False
      else if status = Some ''stable'' then False
      else if truthy status \<and> the status \<noteq> ''initial'' then False
      else if truthy query \<and> searchScore (OfInitial api) (the query) = 0 then False
      else True)"

record Scored =
  r_score :: int
  r_result :: ApiSearchResult

definition stableResults ::
  "string option \<Rightarrow> string option \<Rightarrow> string option \<Rightarrow> (CamaraApi \<times> int) list" where
  "stableResults query category status =
     map (\<lambda>api. (api, if truthy query then searchScore (OfStable api) (the query) else 0))
       (filter (stableFilter query category status) STABLE_APIS)"

definition initialResults ::
  "string option \<Rightarrow> string option \<Rightarrow> string option \<Rightarrow> (InitialApi \<times> int) list" where
  "initialResults query category status =
     map (\<lambda>api. (api, if truthy query then searchScore (OfInitial api) (the query) else 0))
       (filter (initialFilter query category status) INITIAL_APIS)"

text \<open>
  \<open>Array.prototype.sort\<close> with a comparison function. The sort is stable, and with a
  consistent comparison its result is the one insertion gives: each element goes in front
  of the first element it does not come after.
\<close>

fun insert_by :: "('a \<Rightarrow> 'a \<Rightarrow> int) \<Rightarrow> 'a \<Rightarrow> 'a list \<Rightarrow> 'a list" where
  "insert_by cmp x [] = [x]"
| "insert_by cmp x (y # ys) =
     (if cmp x y \<le> 0 then x # y # ys else y # insert_by cmp x ys)"

definition array_sort :: "('a \<Rightarrow> 'a \<Rightarrow> int) \<Rightarrow> 'a list \<Rightarrow> 'a list" where
  "array_sort cmp xs = foldr (insert_by cmp) xs []"

text \<open>
  The comparison \<open>(a, b) => b.score - a.score || a.result.name.localeCompare(b.result.name)\<close>.
  \<open>localeCompare\<close> belongs to the host, not to this program: it is the argument \<open>lc\<close>.
\<close>

definition compareFn :: "(string \<Rightarrow> string \<Rightarrow> int) \<Rightarrow> Scored \<Rightarrow> Scored \<Rightarrow> int" where
  "compareFn lc a b =
     (if r_score b - r_score a \<noteq> 0 then r_score b - r_score a
      else lc (res_name (r_result a)) (res_name (r_result b)))"

definition combined ::
  "(string \<Rightarrow> string \<Rightarrow> int) \<Rightarrow> string option \<Rightarrow> string option \<Rightarrow> string option
     \<Rightarrow> Scored list" where
  "combined lc query category status =
     array_sort (compareFn lc)
       (map (\<lambda>r. \<lparr> r_score = snd r, r_result = toSearchResult (fst r) \<rparr>)
          (stableResults query category status)
        @ map (\<lambda>r. \<lparr> r_score = snd r, r_result = initialToSearchResult (fst r) \<rparr>)
            (initialResults query category status))"

text \<open>
  \<open>xs.slice(start, fin)\<close> on integers, which is what the schema of the tool lets
  through for \<open>limit\<close> and \<open>offset\<close>: a negative index counts from the end, and
  both ends are cut to the array.
\<close>

definition array_slice :: "'a list \<Rightarrow> int \<Rightarrow> int \<Rightarrow> 'a list" where
  "array_slice xs start fin =
     (let len = int (length xs);
          k = (if start < 0 then max (len + start) 0 else min start len);
          final = (if fin < 0 then max (len + fin) 0 else min fin len)
      in take (nat (final - k)) (drop (nat k) xs))"

text \<open>The parameters \<open>limit\<close> and \<open>offset\<close> default to 20 and 0 when they are not given.\<close>

definition searchApis ::
  "(string \<Rightarrow> string \<Rightarrow> int) \<Rightarrow> string option \<Rightarrow> string option \<Rightarrow> string option
     \<Rightarrow> int option \<Rightarrow> int option \<Rightarrow> ApiSearchResult PaginatedResponse" where
  "searchApis lc query category status limit offset =
     (let lim = (case limit of None \<Rightarrow> 20 | Some l \<Rightarrow> l);
          off = (case offset of None \<Rightarrow> 0 | Some n \<Rightarrow> n);
          cmb = combined lc query category status;
          total = int (length cmb);
          paged = array_slice cmb off (off + lim)
      in \<lparr> pg_total = total,
           pg_count = int (length paged),
           pg_offset = off,
           pg_items = map r_result paged,
           pg_has_more = (total > off + int (length paged)),
           pg_next_offset =
             (if total > off + int (length paged) then Some (off + int (length paged))
              else None) \<rparr>)"

section \<open>Detail and comparison\<close>

record ApiDetailResult =
  det_name :: string
  det_slug :: string
  det_category :: string
  det_status :: string
  det_description :: string
  det_latest_version :: string
  det_previous_versions :: "string list"
  det_repository_url :: string
  det_website_url :: string
  det_spec_url :: string
  det_industries :: "string list"
  det_auth_flow :: string
  det_http_methods :: "string list"
  det_key_endpoints :: "string list"
  det_use_cases :: "string list"

definition detail_of :: "CamaraApi \<Rightarrow> ApiDetailResult" where
  "detail_of api =
     \<lparr> det_name = api_name api,
       det_slug = api_slug api,
       det_category = category_id (api_category api),
       det_status = status_id (api_status api),
       det_description = api_description api,
       det_latest_version = api_latestVersion api,
       det_previous_versions = api_previousVersions api,
       det_repository_url = api_specUrl api,
       det_website_url = api_websiteUrl api,
       det_spec_url = api_specUrl api,
       det_industries = api_industries api,
       det_auth_flow = api_authFlow api,
       det_http_methods = api_httpMethods api,
       det_key_endpoints = api_keyEndpoints api,
       det_use_cases = api_useCases api \<rparr>"

text \<open>\<open>getApiDetail\<close> returns \<open>null\<close>, here \<open>None\<close>, when no stable record has the slug.\<close>

definition getApiDetail :: "string \<Rightarrow> ApiDetailResult option" where
  "getApiDetail slug =
     (case find (\<lambda>a. api_slug a = slug) STABLE_APIS of
        None \<Rightarrow> None
      | Some api \<Rightarrow> Some (detail_of api))"

text \<open>
  The handler of \<open>camara_compare_apis\<close>, up to the point where it renders. \<open>Inl\<close> is the
  message given to \<open>errorResult\<close>; \<open>Inr\<close> is the array \<open>details\<close>, which both output
  formats render element by element.
\<close>

definition camara_compare_apis :: "string list \<Rightarrow> string + ApiDetailResult list" where
  "camara_compare_apis slugs =
     (let details = map the (filter (\<lambda>d. d \<noteq> None) (map getApiDetail slugs))
      in if int (length details) < 2
         then Inl (''Need at least 2 valid stable API slugs. Valid: ''
                   @ join '', '' (map api_slug STABLE_APIS))
         else Inr details)"

section \<open>The search on the store\<close>

text \<open>
  What lasts from one call to the next is the store: the arrays, reached by reference, and
  the locale of the host, which \<open>localeCompare\<close> follows. \<open>STABLE_APIS\<close> and
  \<open>INITIAL_APIS\<close> are references to two arrays of the store. The records and results
  held in an array are values here: the search assigns to no property of any of them.
\<close>

type_synonym addr = nat

datatype array_cell =
    StableArr "CamaraApi list"
  | InitialArr "InitialApi list"
  | StableScoredArr "(CamaraApi \<times> int) list"
  | InitialScoredArr "(InitialApi \<times> int) list"
  | ScoredArr "Scored list"
  | ResultArr "ApiSearchResult list"

record store =
  heap :: "addr \<Rightarrow> array_cell option"
  next_addr :: addr
  host_locale :: string

text \<open>Reading an array through a reference of its type.\<close>

definition stable_at :: "store \<Rightarrow> addr \<Rightarrow> CamaraApi list" where
  "stable_at st a = (case heap st a of Some (StableArr xs) \<Rightarrow> xs | _ \<Rightarrow> [])"

definition initial_at :: "store \<Rightarrow> addr \<Rightarrow> InitialApi list" where
  "initial_at st a = (case heap st a of Some (InitialArr xs) \<Rightarrow> xs | _ \<Rightarrow> [])"

definition stable_scored_at :: "store \<Rightarrow> addr \<Rightarrow> (CamaraApi \<times> int) list" where
  "stable_scored_at st a = (case heap st a of Some (StableScoredArr xs) \<Rightarrow> xs | _ \<Rightarrow> [])"

definition initial_scored_at :: "store \<Rightarrow> addr \<Rightarrow> (InitialApi \<times> int) list" where
  "initial_scored_at st a = (case heap st a of Some (InitialScoredArr xs) \<Rightarrow> xs | _ \<Rightarrow> [])"

definition scored_at :: "store \<Rightarrow> addr \<Rightarrow> Scored list" where
  "scored_at st a = (case heap st a of Some (ScoredArr xs) \<Rightarrow> xs | _ \<Rightarrow> [])"

definition results_at :: "store \<Rightarrow> addr \<Rightarrow> ApiSearchResult list" where
  "results_at st a = (case heap st a of Some (ResultArr xs) \<Rightarrow> xs | _ \<Rightarrow> [])"

text \<open>
  \<open>filter\<close>, \<open>map\<close>, \<open>slice\<close> and an array literal make a new array, at a reference
  not in use, and leave every other array as it is.
\<close>

definition new_array :: "array_cell \<Rightarrow> store \<Rightarrow> addr \<times> store" where
  "new_array c st =
     (next_addr st,
      st\<lparr> heap := (heap st)(next_addr st := Some c), next_addr := Suc (next_addr st) \<rparr>)"

text \<open>\<open>sort\<close> rearranges the array it is called on, in its place, and returns its reference.\<close>

definition sort_in_place :: "(Scored \<Rightarrow> Scored \<Rightarrow> int) \<Rightarrow> addr \<Rightarrow> store \<Rightarrow> addr \<times> store" where
  "sort_in_place cmp a st =
     (a, st\<lparr> heap := (heap st)(a := Some (ScoredArr (array_sort cmp (scored_at st a)))) \<rparr>)"

definition STABLE_APIS_ref :: addr where
  "STABLE_APIS_ref = 0"

definition INITIAL_APIS_ref :: addr where
  "INITIAL_APIS_ref = 1"

text \<open>
  \<open>searchApis\<close>, statement by statement, on the store. \<open>localeCompare\<close> takes the
  locale of the host first. The response is returned with the contents of its \<open>items\<close>.
\<close>

definition searchApis_store ::
  "(string \<Rightarrow> string \<Rightarrow> string \<Rightarrow> int) \<Rightarrow> string option \<Rightarrow> string option \<Rightarrow> string option
     \<Rightarrow> int option \<Rightarrow> int option \<Rightarrow> store \<Rightarrow> ApiSearchResult PaginatedResponse \<times> store" where
  "searchApis_store localeCompare query category status limit offset st0 =
     (let lim = (case limit of None \<Rightarrow> 20 | Some l \<Rightarrow> l);
          off = (case offset of None \<Rightarrow> 0 | Some n \<Rightarrow> n);
          (results_ref, st1) = new_array (ResultArr []) st0;
          (stable_kept_ref, st2) =
             new_array (StableArr (filter (stableFilter query category status)
                                     (stable_at st1 STABLE_APIS_ref))) st1;
          (stableResults_ref, st3) =
             new_array (StableScoredArr
                          (map (\<lambda>api. (api, if truthy query
                                             then searchScore (OfStable api) (the query) else 0))
                             (stable_at st2 stable_kept_ref))) st2;
          (initial_kept_ref, st4) =
             new_array (InitialArr (filter (initialFilter query category status)
                                      (initial_at st3 INITIAL_APIS_ref))) st3;
          (initialResults_ref, st5) =
             new_array (InitialScoredArr
                          (map (\<lambda>api. (api, if truthy query
                                             then searchScore (OfInitial api) (the query) else 0))
                             (initial_at st4 initial_kept_ref))) st4;
          (stable_mapped_ref, st6) =
             new_array (ScoredArr
                          (map (\<lambda>r. \<lparr> r_score = snd r, r_result = toSearchResult (fst r) \<rparr>)
                             (stable_scored_at st5 stableResults_ref))) st5;
          (initial_mapped_ref, st7) =
             new_array (ScoredArr
                          (map (\<lambda>r. \<lparr> r_score = snd r, r_result = initialToSearchResult (fst r) \<rparr>)
                             (initial_scored_at st6 initialResults_ref))) st6;
          (literal_ref, st8) =
             new_array (ScoredArr (scored_at st7 stable_mapped_ref
                                   @ scored_at st7 initial_mapped_ref)) st7;
          (combined_ref, st9) =
             sort_in_place (compareFn (localeCompare (host_locale st8))) literal_ref st8;
          total = int (length (scored_at st9 combined_ref));
          (paged_ref, st10) =
             new_array (ScoredArr (array_slice (scored_at st9 combined_ref) off (off + lim))) st9;
          count = int (length (scored_at st10 paged_ref));
          (items_ref, st11) =
             new_array (ResultArr (map r_result (scored_at st10 paged_ref))) st10
      in (\<lparr> pg_total = total,
            pg_count = count,
            pg_offset = off,
            pg_items = results_at st11 items_ref,
            pg_has_more = (total > off + count),
            pg_next_offset = (if total > off + count then Some (off + count) else None) \<rparr>,
          st11))"

text \<open>
  The store once the module is loaded holds the catalog at the two references, and new
  arrays come after them. \<open>module_store\<close> is the store right after loading.
\<close>

definition module_loaded :: "store \<Rightarrow> bool" where
  "module_loaded st =
     (heap st STABLE_APIS_ref = Some (StableArr STABLE_APIS)
      \<and> heap st INITIAL_APIS_ref = Some (InitialArr INITIAL_APIS)
      \<and> STABLE_APIS_ref < next_addr st
      \<and> INITIAL_APIS_ref < next_addr st)"

definition module_store :: "string \<Rightarrow> store" where
  "module_store loc =
     \<lparr> heap = (\<lambda>a. None)(STABLE_APIS_ref := Some (StableArr STABLE_APIS),
                          INITIAL_APIS_ref := Some (InitialArr INITIAL_APIS)),
       next_addr = 2,
       host_locale = loc \<rparr>"

text \<open>The store holds an array at a reference that is in use.\<close>

definition holds :: "store \<Rightarrow> addr \<Rightarrow> array_cell \<Rightarrow> bool" where
  "holds st a c = (heap st a = Some c \<and> a < next_addr st)"


section \<open>The specification's notions\<close>

text \<open>A field contains the query case-insensitively.\<close>

definition contains_ci :: "string \<Rightarrow> string \<Rightarrow> bool" where
  "contains_ci field query = str_includes (toLowerCase field) (toLowerCase query)"

fun industries_of :: "AnyApi \<Rightarrow> string list" where
  "industries_of (OfStable a) = api_industries a"
| "industries_of (OfInitial a) = []"

fun use_cases_of :: "AnyApi \<Rightarrow> string list" where
  "use_cases_of (OfStable a) = api_useCases a"
| "use_cases_of (OfInitial a) = []"

text \<open>The table of weights of the specification, summed field by field.\<close>

definition spec_score :: "AnyApi \<Rightarrow> string \<Rightarrow> int" where
  "spec_score api query =
     (if contains_ci (name_of api) query then 10 else 0)
     + (if contains_ci (slug_of api) query then 8 else 0)
     + (if contains_ci (category_of api) query then 5 else 0)
     + (if contains_ci (description_of api) query then 3 else 0)
     + (if \<exists>ind \<in> set (industries_of api). contains_ci ind query then 4 else 0)
     + (if \<exists>uc \<in> set (use_cases_of api). contains_ci uc query then 2 else 0)"

text \<open>The whole catalog, stable records first, and what a search shows of a record.\<close>

definition catalog_records :: "AnyApi list" where
  "catalog_records = map OfStable STABLE_APIS @ map OfInitial INITIAL_APIS"

fun search_result_of :: "AnyApi \<Rightarrow> ApiSearchResult" where
  "search_result_of (OfStable a) = toSearchResult a"
| "search_result_of (OfInitial a) = initialToSearchResult a"

fun maturity_of :: "AnyApi \<Rightarrow> string" where
  "maturity_of (OfStable a) = status_id (api_status a)"
| "maturity_of (OfInitial a) = ''initial''"

text \<open>
  The filter of the specification for a present, non-empty query: the category is absent
  or the record's, the status is absent or the record's maturity, and the score is positive.
\<close>

definition in_candidate_set ::
  "string \<Rightarrow> string option \<Rightarrow> string option \<Rightarrow> AnyApi \<Rightarrow> bool" where
  "in_candidate_set q category status api =
     ((category = None \<or> category = Some (category_of api))
      \<and> (status = None \<or> status = Some (maturity_of api))
      \<and> 0 < searchScore api q)"

text \<open>The score a record carries through the ranking, and the filter of its variant.\<close>

definition score_for :: "string option \<Rightarrow> AnyApi \<Rightarrow> int" where
  "score_for query api = (if truthy query then searchScore api (the query) else 0)"

fun passes :: "string option \<Rightarrow> string option \<Rightarrow> string option \<Rightarrow> AnyApi \<Rightarrow> bool" where
  "passes query category status (OfStable a) = stableFilter query category status a"
| "passes query category status (OfInitial a) = initialFilter query category status a"

text \<open>
  A consistent comparison, as \<open>Array.prototype.sort\<close> expects one: the sign turns over
  when the arguments are exchanged, and "not after" is transitive.
\<close>

definition consistent :: "('a \<Rightarrow> 'a \<Rightarrow> int) \<Rightarrow> bool" where
  "consistent cmp =
     ((\<forall>a b. cmp a b < 0 \<longleftrightarrow> 0 < cmp b a)
      \<and> (\<forall>a b c. cmp a b \<le> 0 \<longrightarrow> cmp b c \<le> 0 \<longrightarrow> cmp a c \<le> 0))"

text \<open>Rank order: higher score first, and on equal scores the name that \<open>lc\<close> does not put after.\<close>

definition ranked_before :: "(string \<Rightarrow> string \<Rightarrow> int) \<Rightarrow> Scored \<Rightarrow> Scored \<Rightarrow> bool" where
  "ranked_before lc a b =
     (r_score b < r_score a
      \<or> (r_score a = r_score b \<and> lc (res_name (r_result a)) (res_name (r_result b)) \<le> 0))"

text \<open>Ordinal comparison of strings: character codes, left to right, a prefix first.\<close>

fun ordinal_le :: "string \<Rightarrow> string \<Rightarrow> bool" where
  "ordinal_le [] b = True"
| "ordinal_le (x # a) [] = False"
| "ordinal_le (x # a) (y # b) =
     ((of_char x :: nat) < of_char y \<or> (x = y \<and> ordinal_le a b))"

text \<open>
  The fields the scenario of the specification names: description, name, slug, industries
  and use cases. One of them contains the query case-insensitively.
\<close>

definition mentions :: "AnyApi \<Rightarrow> string \<Rightarrow> bool" where
  "mentions api query =
     (contains_ci (description_of api) query
      \<or> contains_ci (name_of api) query
      \<or> contains_ci (slug_of api) query
      \<or> list_ex (\<lambda>ind. contains_ci ind query) (industries_of api)
      \<or> list_ex (\<lambda>uc. contains_ci uc query) (use_cases_of api))"



text \<open>A slug resolves when a stable record has it.\<close>

definition resolves :: "string \<Rightarrow> bool" where
  "resolves slug = (\<exists>a \<in> set STABLE_APIS. api_slug a = slug)"

section \<open>A host comparison\<close>

text \<open>
  \<open>String.prototype.localeCompare\<close> without a locale argument follows the collation of
  the host. \<open>localeCompare_root\<close> is that comparison under the root collation of CLDR,
  for strings of letters, digits, spaces and hyphens, which every name of the catalog is:
  first the letters without their case are compared (space, hyphen, digits, then a to z),
  and if that decides nothing the case is, lower case first.
\<close>

definition collation_order :: string where
  "collation_order = '' -0123456789abcdefghijklmnopqrstuvwxyz''"

fun index_in :: "string \<Rightarrow> char \<Rightarrow> nat" where
  "index_in [] c = 0"
| "index_in (d # ds) c = (if d = c then 0 else Suc (index_in ds c))"

definition primary_weight :: "char \<Rightarrow> nat" where
  "primary_weight c = index_in collation_order (lower_char c)"

definition case_weight :: "char \<Rightarrow> nat" where
  "case_weight c = (if lower_char c = c then 0 else 1)"

fun compare_weights :: "nat list \<Rightarrow> nat list \<Rightarrow> int" where
  "compare_weights [] [] = 0"
| "compare_weights [] (y # ys) = - 1"
| "compare_weights (x # xs) [] = 1"
| "compare_weights (x # xs) (y # ys) =
     (if x < y then - 1 else if y < x then 1 else compare_weights xs ys)"

definition localeCompare_root :: "string \<Rightarrow> string \<Rightarrow> int" where
  "localeCompare_root a b =
     (let p = compare_weights (map primary_weight a) (map primary_weight b)
      in if p \<noteq> 0 then p
         else compare_weights (map case_weight a) (map case_weight b))"


section \<open>Properties\<close>

subsection \<open>Strings and scores\<close>


lemma startsWith_iff: "startsWith t q \<longleftrightarrow> (\<exists>ss. t = q @ ss)"
  by (induction t q rule: startsWith.induct) auto

lemma str_includes_iff: "str_includes t q \<longleftrightarrow> (\<exists>ps ss. t = ps @ q @ ss)"
proof (induction t)
  case Nil
  then show ?case by auto
next
  case (Cons d t)
  show ?case
  proof
    assume "str_includes (d # t) q"
    then consider "startsWith (d # t) q" | "str_includes t q" by auto
    then show "\<exists>ps ss. d # t = ps @ q @ ss"
    proof cases
      case 1
      then obtain ss where "d # t = q @ ss" using startsWith_iff by blast
      then have "d # t = [] @ q @ ss" by simp
      then show ?thesis by blast
    next
      case 2
      then obtain ps ss where "t = ps @ q @ ss" using Cons.IH by blast
      then have "d # t = (d # ps) @ q @ ss" by simp
      then show ?thesis by blast
    qed
  next
    assume "\<exists>ps ss. d # t = ps @ q @ ss"
    then obtain ps ss where e: "d # t = ps @ q @ ss" by blast
    show "str_includes (d # t) q"
    proof (cases ps)
      case Nil
      with e have "startsWith (d # t) q" using startsWith_iff by auto
      then show ?thesis by simp
    next
      case (Cons p ps')
      with e have "t = ps' @ q @ ss" by simp
      then have "str_includes t q" using Cons.IH by blast
      then show ?thesis by simp
    qed
  qed
qed

lemma lower_char_Char [code]:
  "lower_char (Char b0 b1 b2 b3 b4 b5 b6 b7) =
     (if \<not> b7 \<and> b6 \<and> \<not> b5 \<and> (b0 \<or> b1 \<or> b2 \<or> b3 \<or> b4) \<and> \<not> (b4 \<and> b3 \<and> (b2 \<or> (b1 \<and> b0)))
      then Char b0 b1 b2 b3 b4 True b6 b7 else Char b0 b1 b2 b3 b4 b5 b6 b7)"
  by (cases b0; cases b1; cases b2; cases b3; cases b4; cases b5; cases b6; cases b7)
     (simp_all add: lower_char_def Let_def char_of_def bit_Suc_0_iff)


lemma category_id_lower: "toLowerCase (category_id c) = category_id c"
  by (cases c) (simp_all add: lower_char_Char)

lemma add_first_hit_eq:
  "add_first_hit w xs q score =
     score + (if \<exists>x \<in> set xs. str_includes (toLowerCase x) q then w else 0)"
  by (induction xs) auto

lemma category_of_lower: "toLowerCase (category_of api) = category_of api"
  by (cases api) (simp_all add: category_id_lower)

lemma searchScore_spec:
  assumes "toLowerCase (slug_of api) = slug_of api"
  shows "searchScore api query = spec_score api query"
proof (cases api)
  case (OfStable a)
  with assms have s: "toLowerCase (api_slug a) = api_slug a" by simp
  show ?thesis
    unfolding OfStable searchScore_def spec_score_def contains_ci_def Let_def
    by (simp add: add_first_hit_eq s category_id_lower)
next
  case (OfInitial a)
  with assms have s: "toLowerCase (ini_slug a) = ini_slug a" by simp
  show ?thesis
    unfolding OfInitial searchScore_def spec_score_def contains_ci_def Let_def
    by (simp add: s category_id_lower)
qed

lemma catalog_slugs_lower:
  "\<forall>api \<in> set catalog_records. toLowerCase (slug_of api) = slug_of api"
  by code_simp

text \<open>
  Claim C1. For a record of either variant whose slug is in lower case, and so for every
  record of the catalog, and for every query, \<open>searchScore\<close> is the sum of 10 for the
  name, 8 for the slug, 5 for the category identifier, 3 for the description, 4 once for
  the industries and 2 once for the use cases, each counted when the field contains the
  query case-insensitively; an initial record has no industries and no use cases.
\<close>

theorem searchScore_weights:
  "(toLowerCase (slug_of api) = slug_of api \<longrightarrow> searchScore api query = spec_score api query)
   \<and> (\<forall>record \<in> set catalog_records. searchScore record query = spec_score record query)"
  using searchScore_spec catalog_slugs_lower by blast


subsection \<open>Sorting and slicing\<close>

lemma set_insert_by: "set (insert_by cmp x ys) = insert x (set ys)"
  by (induction ys) auto

lemma length_insert_by: "length (insert_by cmp x ys) = Suc (length ys)"
  by (induction ys) auto

lemma set_array_sort: "set (array_sort cmp xs) = set xs"
  by (induction xs) (auto simp: array_sort_def set_insert_by)

lemma length_array_sort: "length (array_sort cmp xs) = length xs"
  by (induction xs) (auto simp: array_sort_def length_insert_by)

lemma array_slice_nonneg:
  assumes "0 \<le> start" and "0 \<le> fin"
  shows "array_slice xs start fin = take (nat (fin - start)) (drop (nat start) xs)"
proof (cases "start \<le> int (length xs)")
  case True
  have "take (nat (min fin (int (length xs)) - start)) (drop (nat start) xs)
        = take (nat (fin - start)) (drop (nat start) xs)"
  proof (cases "fin \<le> int (length xs)")
    case True
    then show ?thesis by (simp add: min_def)
  next
    case False
    with True assms have "length (drop (nat start) xs) \<le> nat (int (length xs) - start)"
      and "length (drop (nat start) xs) \<le> nat (fin - start)"
      by auto
    with False show ?thesis by (simp add: min_def)
  qed
  with True assms show ?thesis
    by (simp add: array_slice_def Let_def min_def)
next
  case False
  with assms show ?thesis
    by (simp add: array_slice_def Let_def min_def)
qed

lemma length_page:
  assumes "0 \<le> off" and "0 \<le> lim"
  shows "int (length (array_slice xs off (off + lim)))
         = (if off < int (length xs) then min lim (int (length xs) - off) else 0)"
  using assms by (auto simp: array_slice_nonneg min_def)

lemma length_combined:
  "length (combined lc query category status)
   = length (filter (stableFilter query category status) STABLE_APIS)
     + length (filter (initialFilter query category status) INITIAL_APIS)"
  by (simp add: combined_def length_array_sort stableResults_def initialResults_def)

lemma searchApis_defaults:
  "searchApis lc query category status limit offset
   = searchApis lc query category status
       (Some (case limit of None \<Rightarrow> 20 | Some l \<Rightarrow> l))
       (Some (case offset of None \<Rightarrow> 0 | Some n \<Rightarrow> n))"
  by (simp add: searchApis_def)

text \<open>
  Claim C2. Let \<open>lim\<close> and \<open>off\<close> be the limit and the offset of a call, 20 and 0
  when they are not given, and let neither be negative. Then \<open>total\<close> is the number of
  records the two filters keep, the items are the slice from \<open>off\<close> of length \<open>lim\<close>
  of the ranked sequence, \<open>count\<close> is their number, which is \<open>min lim (total - off)\<close>
  when \<open>off < total\<close> and 0 otherwise, \<open>has_more\<close> holds exactly when
  \<open>off + count < total\<close>, and \<open>next_offset\<close> is \<open>off + count\<close> exactly when
  \<open>has_more\<close> holds.
\<close>

theorem searchApis_pagination:
  assumes "lim = (case limit of None \<Rightarrow> 20 | Some l \<Rightarrow> l)"
    and "off = (case offset of None \<Rightarrow> 0 | Some n \<Rightarrow> n)"
    and "0 \<le> lim" and "0 \<le> off"
  shows "let r = searchApis lc query category status limit offset in
         pg_total r = int (length (filter (stableFilter query category status) STABLE_APIS)
                           + length (filter (initialFilter query category status) INITIAL_APIS))
       \<and> pg_items r = take (nat lim) (drop (nat off)
                          (map r_result (combined lc query category status)))
       \<and> pg_count r = int (length (pg_items r))
       \<and> pg_count r = (if off < pg_total r then min lim (pg_total r - off) else 0)
       \<and> (pg_has_more r \<longleftrightarrow> off + pg_count r < pg_total r)
       \<and> pg_next_offset r = (if pg_has_more r then Some (off + pg_count r) else None)"
proof -
  define r where "r = searchApis lc query category status limit offset"
  let ?cmb = "combined lc query category status"
  have r: "r = searchApis lc query category status (Some lim) (Some off)"
    unfolding r_def assms(1,2) by (rule searchApis_defaults)
  have t: "pg_total r = int (length ?cmb)"
    by (simp add: r searchApis_def Let_def)
  have i: "pg_items r = map r_result (array_slice ?cmb off (off + lim))"
    by (simp add: r searchApis_def Let_def)
  have c: "pg_count r = int (length (array_slice ?cmb off (off + lim)))"
    by (simp add: r searchApis_def Let_def)
  have h: "pg_has_more r \<longleftrightarrow> off + pg_count r < pg_total r"
    by (simp add: r searchApis_def Let_def)
  have n: "pg_next_offset r = (if pg_has_more r then Some (off + pg_count r) else None)"
    by (simp add: r searchApis_def Let_def)
  have s: "array_slice ?cmb off (off + lim) = take (nat lim) (drop (nat off) ?cmb)"
    using assms(3,4) by (simp add: array_slice_nonneg)
  have "pg_total r = int (length (filter (stableFilter query category status) STABLE_APIS)
                           + length (filter (initialFilter query category status) INITIAL_APIS))"
    using t by (simp add: length_combined)
  moreover have "pg_items r = take (nat lim) (drop (nat off) (map r_result ?cmb))"
    using i s by (simp add: take_map drop_map)
  moreover have "pg_count r = int (length (pg_items r))"
    using c i by simp
  moreover have "pg_count r = (if off < pg_total r then min lim (pg_total r - off) else 0)"
    using c t length_page [OF assms(4) assms(3), of ?cmb] by simp
  ultimately have "pg_total r = int (length (filter (stableFilter query category status) STABLE_APIS)
                           + length (filter (initialFilter query category status) INITIAL_APIS))
       \<and> pg_items r = take (nat lim) (drop (nat off)
                          (map r_result (combined lc query category status)))
       \<and> pg_count r = int (length (pg_items r))
       \<and> pg_count r = (if off < pg_total r then min lim (pg_total r - off) else 0)
       \<and> (pg_has_more r \<longleftrightarrow> off + pg_count r < pg_total r)
       \<and> pg_next_offset r = (if pg_has_more r then Some (off + pg_count r) else None)"
    using h n by blast
  then show ?thesis unfolding r_def Let_def .
qed


subsection \<open>Order of the result\<close>

lemma sorted_insert_by:
  assumes tot: "\<And>a b. 0 < cmp a b \<Longrightarrow> cmp b a \<le> 0"
    and trans: "\<And>a b c. cmp a b \<le> 0 \<Longrightarrow> cmp b c \<le> 0 \<Longrightarrow> cmp a c \<le> 0"
    and "sorted_wrt (\<lambda>a b. cmp a b \<le> 0) ys"
  shows "sorted_wrt (\<lambda>a b. cmp a b \<le> 0) (insert_by cmp x ys)"
  using assms(3)
proof (induction ys)
  case Nil
  then show ?case by simp
next
  case (Cons y ys)
  show ?case
  proof (cases "cmp x y \<le> 0")
    case True
    have "\<forall>z \<in> set ys. cmp x z \<le> 0"
      using Cons.prems True trans by auto
    with True Cons.prems show ?thesis by simp
  next
    case False
    then have "cmp y x \<le> 0" using tot by simp
    with False Cons show ?thesis by (auto simp: set_insert_by)
  qed
qed

lemma sorted_array_sort:
  assumes "\<And>a b. 0 < cmp a b \<Longrightarrow> cmp b a \<le> 0"
    and "\<And>a b c. cmp a b \<le> 0 \<Longrightarrow> cmp b c \<le> 0 \<Longrightarrow> cmp a c \<le> 0"
  shows "sorted_wrt (\<lambda>a b. cmp a b \<le> 0) (array_sort cmp xs)"
proof (induction xs)
  case Nil
  then show ?case by (simp add: array_sort_def)
next
  case (Cons x xs)
  have "array_sort cmp (x # xs) = insert_by cmp x (array_sort cmp xs)"
    by (simp add: array_sort_def)
  with Cons assms show ?case by (simp add: sorted_insert_by)
qed

lemma compareFn_le: "compareFn lc a b \<le> 0 \<longleftrightarrow> ranked_before lc a b"
  by (auto simp: compareFn_def ranked_before_def)

lemma compareFn_total:
  assumes "consistent lc" and "0 < compareFn lc a b"
  shows "compareFn lc b a \<le> 0"
proof (cases "r_score a = r_score b")
  case True
  with assms(2) have "0 < lc (res_name (r_result a)) (res_name (r_result b))"
    by (simp add: compareFn_def)
  then have "lc (res_name (r_result b)) (res_name (r_result a)) < 0"
    using assms(1) by (simp add: consistent_def)
  with True show ?thesis by (simp add: compareFn_def)
next
  case False
  with assms(2) show ?thesis by (simp add: compareFn_def)
qed

lemma compareFn_trans:
  assumes "consistent lc" and "compareFn lc a b \<le> 0" and "compareFn lc b c \<le> 0"
  shows "compareFn lc a c \<le> 0"
proof -
  have t: "\<And>x y z. lc x y \<le> 0 \<Longrightarrow> lc y z \<le> 0 \<Longrightarrow> lc x z \<le> 0"
    using assms(1) unfolding consistent_def by blast
  from assms(2,3) have "ranked_before lc a b" and "ranked_before lc b c"
    by (simp_all add: compareFn_le)
  then have "ranked_before lc a c"
    unfolding ranked_before_def using t by (elim disjE conjE) auto
  then show ?thesis by (simp add: compareFn_le)
qed

lemma sorted_combined:
  assumes "consistent lc"
  shows "sorted_wrt (ranked_before lc) (combined lc query category status)"
proof -
  have "sorted_wrt (\<lambda>a b. compareFn lc a b \<le> 0) (combined lc query category status)"
    unfolding combined_def
    by (rule sorted_array_sort) (blast intro: compareFn_total [OF assms] compareFn_trans [OF assms])+
  then show ?thesis by (simp add: compareFn_le)
qed

lemma sorted_wrt_array_slice:
  "sorted_wrt P xs \<Longrightarrow> sorted_wrt P (array_slice xs start fin)"
  by (simp add: array_slice_def Let_def sorted_wrt_take sorted_wrt_drop)

lemma set_array_slice: "set (array_slice xs start fin) \<subseteq> set xs"
  unfolding array_slice_def Let_def
  by (meson set_take_subset set_drop_subset subset_trans)

subsection \<open>Members of the result\<close>

lemma set_combined:
  "set (combined lc query category status)
   = (\<lambda>api. \<lparr> r_score = score_for query api, r_result = search_result_of api \<rparr>)
       ` {api \<in> set catalog_records. passes query category status api}"
  (is "?L = ?R")
proof -
  have "?L = (\<lambda>a. \<lparr> r_score = score_for query (OfStable a), r_result = toSearchResult a \<rparr>)
               ` {a \<in> set STABLE_APIS. stableFilter query category status a}
           \<union> (\<lambda>a. \<lparr> r_score = score_for query (OfInitial a), r_result = initialToSearchResult a \<rparr>)
               ` {a \<in> set INITIAL_APIS. initialFilter query category status a}"
    by (auto simp: combined_def set_array_sort stableResults_def initialResults_def
        score_for_def image_iff)
  also have "\<dots> = ?R"
    by (auto simp: catalog_records_def image_iff)
  finally show ?thesis .
qed

lemma searchScore_nonneg: "0 \<le> searchScore api query"
proof -
  have a: "\<And>w xs q s. 0 \<le> w \<Longrightarrow> 0 \<le> s \<Longrightarrow> 0 \<le> add_first_hit w xs q s"
    by (simp add: add_first_hit_eq)
  show ?thesis
    by (cases api) (simp_all add: searchScore_def Let_def a)
qed

lemma passes_iff:
  assumes "q \<noteq> []" and "category \<noteq> Some []" and "status \<noteq> Some []"
  shows "passes (Some q) category status api \<longleftrightarrow> in_candidate_set q category status api"
proof -
  have z: "searchScore api q \<noteq> 0 \<longleftrightarrow> 0 < searchScore api q"
    using searchScore_nonneg [of api q] by linarith
  show ?thesis
  proof (cases api)
    case (OfStable a)
    with assms z show ?thesis
      by (cases category; cases status)
         (auto simp: stableFilter_def in_candidate_set_def truthy_def)
  next
    case (OfInitial a)
    with assms z show ?thesis
      by (cases category; cases status)
         (auto simp: initialFilter_def in_candidate_set_def truthy_def)
  qed
qed

lemma on_some_page:
  assumes "1 \<le> limit"
  shows "(\<exists>offset\<ge>0. x \<in> set (array_slice xs offset (offset + limit))) \<longleftrightarrow> x \<in> set xs"
proof
  assume "\<exists>offset\<ge>0. x \<in> set (array_slice xs offset (offset + limit))"
  then show "x \<in> set xs" using set_array_slice by fast
next
  assume "x \<in> set xs"
  then obtain i where i: "i < length xs" "xs ! i = x" by (auto simp: in_set_conv_nth)
  then have "drop i xs = x # drop (Suc i) xs" using Cons_nth_drop_Suc [of i xs] by simp
  moreover from assms obtain n where "nat limit = Suc n" by (cases "nat limit") auto
  ultimately have "x \<in> set (take (nat limit) (drop (nat (int i)) xs))" by simp
  moreover have "array_slice xs (int i) (int i + limit)
                 = take (nat (int i + limit - int i)) (drop (nat (int i)) xs)"
    using assms by (intro array_slice_nonneg) auto
  ultimately have "x \<in> set (array_slice xs (int i) (int i + limit))" by simp
  then show "\<exists>offset\<ge>0. x \<in> set (array_slice xs offset (offset + limit))"
    by (intro exI [of _ "int i"]) simp
qed

lemma items_searchApis:
  "pg_items (searchApis lc query category status (Some limit) (Some offset))
   = map r_result (array_slice (combined lc query category status) offset (offset + limit))"
  by (simp add: searchApis_def Let_def)

text \<open>
  Claim C4. With a present, non-empty query, the items found on the pages of a search are
  exactly the search results of the catalog records that pass the category filter (absent,
  or equal to the record's category) and the status filter (absent, or equal to the
  record's maturity) and whose score against the query is positive. So no item of any page
  has score zero. The category and the status, when given, are non-empty, as the enumerations
  of the interface make them; the page size is at least 1.
\<close>

theorem search_membership:
  assumes "q \<noteq> []" and "category \<noteq> Some []" and "status \<noteq> Some []" and "1 \<le> limit"
  shows "(\<exists>offset\<ge>0. item \<in> set (pg_items
            (searchApis lc (Some q) category status (Some limit) (Some offset))))
         \<longleftrightarrow> (\<exists>api \<in> set catalog_records.
                item = search_result_of api \<and> in_candidate_set q category status api)"
proof -
  let ?cmb = "combined lc (Some q) category status"
  have "(\<exists>offset\<ge>0. item \<in> set (pg_items
            (searchApis lc (Some q) category status (Some limit) (Some offset))))
        \<longleftrightarrow> (\<exists>offset\<ge>0. \<exists>x \<in> set (array_slice ?cmb offset (offset + limit)). item = r_result x)"
    by (auto simp: items_searchApis)
  also have "\<dots> \<longleftrightarrow> (\<exists>x. (\<exists>offset\<ge>0. x \<in> set (array_slice ?cmb offset (offset + limit)))
                          \<and> item = r_result x)"
    by blast
  also have "\<dots> \<longleftrightarrow> (\<exists>x \<in> set ?cmb. item = r_result x)"
    by (simp add: on_some_page [OF assms(4)] Bex_def)
  also have "\<dots> \<longleftrightarrow> (\<exists>api \<in> set catalog_records.
                item = search_result_of api \<and> passes (Some q) category status api)"
    by (auto simp: set_combined)
  also have "\<dots> \<longleftrightarrow> (\<exists>api \<in> set catalog_records.
                item = search_result_of api \<and> in_candidate_set q category status api)"
    by (simp add: passes_iff [OF assms(1,2,3)])
  finally show ?thesis .
qed


lemma sim_swap_in_catalog: "OfStable sim_swap \<in> set catalog_records"
  by (simp add: catalog_records_def STABLE_APIS_def)

theorem searchScore_weights_witness:
  "toLowerCase (slug_of (OfStable sim_swap)) = slug_of (OfStable sim_swap)
   \<and> OfStable sim_swap \<in> set catalog_records
   \<and> searchScore (OfStable sim_swap) ''Fraud'' = spec_score (OfStable sim_swap) ''Fraud''
   \<and> searchScore (OfStable sim_swap) ''Fraud'' = 10"
proof -
  have h: "toLowerCase (slug_of (OfStable sim_swap)) = slug_of (OfStable sim_swap)"
    by code_simp
  have v: "searchScore (OfStable sim_swap) ''Fraud'' = 10"
    by code_simp
  from searchScore_weights [of "OfStable sim_swap" "''Fraud''"] h
  have "searchScore (OfStable sim_swap) ''Fraud'' = spec_score (OfStable sim_swap) ''Fraud''"
    by blast
  with h v sim_swap_in_catalog show ?thesis by blast
qed

theorem searchApis_pagination_witness:
  "(5::int) = (case Some 5 of None \<Rightarrow> 20 | Some l \<Rightarrow> l)
   \<and> (0::int) = (case None of None \<Rightarrow> 0 | Some n \<Rightarrow> n)
   \<and> (0::int) \<le> 5 \<and> (0::int) \<le> 0
   \<and> (let r = searchApis localeCompare_root None None (Some ''stable'') (Some 5) None in
        pg_total r = 10 \<and> pg_count r = 5 \<and> pg_has_more r \<and> pg_next_offset r = Some 5)"
proof -
  define r where "r = searchApis localeCompare_root None None (Some ''stable'') (Some 5) None"
  have l: "(5::int) = (case Some 5 of None \<Rightarrow> 20 | Some l \<Rightarrow> l)"
    and f: "(0::int) = (case None of None \<Rightarrow> 0 | Some n \<Rightarrow> n)"
    and a: "(0::int) \<le> 5" and b: "(0::int) \<le> 0" by simp_all
  have n: "int (length (filter (stableFilter None None (Some ''stable'')) STABLE_APIS)
                + length (filter (initialFilter None None (Some ''stable'')) INITIAL_APIS)) = 10"
    by code_simp
  from searchApis_pagination [OF l f a b, of localeCompare_root None None "Some ''stable''"]
  have t: "pg_total r = int (length (filter (stableFilter None None (Some ''stable'')) STABLE_APIS)
                + length (filter (initialFilter None None (Some ''stable'')) INITIAL_APIS))"
    and c: "pg_count r = (if 0 < pg_total r then min 5 (pg_total r - 0) else 0)"
    and h: "pg_has_more r \<longleftrightarrow> 0 + pg_count r < pg_total r"
    and x: "pg_next_offset r = (if pg_has_more r then Some (0 + pg_count r) else None)"
    unfolding Let_def r_def by blast+
  from t n have t10: "pg_total r = 10" by (rule trans)
  from c t10 have c5: "pg_count r = 5" by simp
  from h t10 c5 have hm: "pg_has_more r" by simp
  from x hm c5 have "pg_next_offset r = Some 5" by simp
  with t10 c5 hm l f a b show ?thesis unfolding Let_def r_def by blast
qed

theorem search_membership_witness:
  "''fraud'' \<noteq> [] \<and> Some ''auth-fraud'' \<noteq> Some [] \<and> (None :: string option) \<noteq> Some []
   \<and> (1::int) \<le> 20
   \<and> (\<exists>offset\<ge>0. toSearchResult sim_swap \<in> set (pg_items
         (searchApis localeCompare_root (Some ''fraud'') (Some ''auth-fraud'') None
            (Some 20) (Some offset))))"
proof -
  have h1: "''fraud'' \<noteq> []" and h2: "Some ''auth-fraud'' \<noteq> Some []"
    and h3: "(None :: string option) \<noteq> Some []" and h4: "(1::int) \<le> 20"
    by simp_all
  have c: "in_candidate_set ''fraud'' (Some ''auth-fraud'') None (OfStable sim_swap)"
    by code_simp
  have "\<exists>api \<in> set catalog_records. toSearchResult sim_swap = search_result_of api
          \<and> in_candidate_set ''fraud'' (Some ''auth-fraud'') None api"
    using c sim_swap_in_catalog by (intro bexI [of _ "OfStable sim_swap"]) simp_all
  then have "\<exists>offset\<ge>0. toSearchResult sim_swap \<in> set (pg_items
         (searchApis localeCompare_root (Some ''fraud'') (Some ''auth-fraud'') None
            (Some 20) (Some offset)))"
    using search_membership [OF h1 h2 h3 h4, of "toSearchResult sim_swap" localeCompare_root]
    by blast
  with h1 h2 h3 h4 show ?thesis by blast
qed


subsection \<open>The host comparison is consistent\<close>

lemma compare_weights_flip: "compare_weights xs ys < 0 \<longleftrightarrow> 0 < compare_weights ys xs"
  by (induction xs ys rule: compare_weights.induct) auto

lemma compare_weights_zero: "compare_weights xs ys = 0 \<longleftrightarrow> xs = ys"
  by (induction xs ys rule: compare_weights.induct) auto

lemma compare_weights_Cons_le:
  "compare_weights (x # xs) (y # ys) \<le> 0 \<longleftrightarrow> x < y \<or> (x = y \<and> compare_weights xs ys \<le> 0)"
  by auto

lemma compare_weights_trans:
  "compare_weights xs ys \<le> 0 \<Longrightarrow> compare_weights ys zs \<le> 0 \<Longrightarrow> compare_weights xs zs \<le> 0"
proof (induction xs arbitrary: ys zs)
  case Nil
  then show ?case by (cases zs) simp_all
next
  case (Cons x xs)
  from Cons.prems(1) obtain y ys' where ys: "ys = y # ys'"
    by (cases ys) simp_all
  from Cons.prems(2) ys obtain z zs' where zs: "zs = z # zs'"
    by (cases zs) simp_all
  from Cons.prems(1) ys have 1: "x < y \<or> (x = y \<and> compare_weights xs ys' \<le> 0)"
    by (simp only: compare_weights_Cons_le)
  from Cons.prems(2) ys zs have 2: "y < z \<or> (y = z \<and> compare_weights ys' zs' \<le> 0)"
    by (simp only: compare_weights_Cons_le)
  from 1 2 have "x < z \<or> (x = z \<and> compare_weights xs zs' \<le> 0)"
    using Cons.IH [of ys' zs'] by auto
  then show ?case unfolding zs by (simp only: compare_weights_Cons_le)
qed

lemma localeCompare_root_le:
  "localeCompare_root a b \<le> 0 \<longleftrightarrow>
     compare_weights (map primary_weight a) (map primary_weight b) < 0
     \<or> (map primary_weight a = map primary_weight b
        \<and> compare_weights (map case_weight a) (map case_weight b) \<le> 0)"
  using compare_weights_zero [of "map primary_weight a" "map primary_weight b"]
  by (auto simp: localeCompare_root_def Let_def)

lemma compare_weights_less_trans:
  assumes "compare_weights xs ys < 0" and "compare_weights ys zs < 0"
  shows "compare_weights xs zs < 0"
proof -
  from assms have le: "compare_weights xs zs \<le> 0"
    using compare_weights_trans [of xs ys zs] by simp
  have "compare_weights xs zs \<noteq> 0"
  proof
    assume "compare_weights xs zs = 0"
    then have "xs = zs" by (simp add: compare_weights_zero)
    with assms(2) have "0 < compare_weights xs ys" by (simp add: compare_weights_flip)
    with assms(1) show False by simp
  qed
  with le show ?thesis by simp
qed

lemma consistent_localeCompare_root: "consistent localeCompare_root"
  unfolding consistent_def
proof (intro conjI allI impI)
  fix a b
  show "localeCompare_root a b < 0 \<longleftrightarrow> 0 < localeCompare_root b a"
    using compare_weights_flip [of "map primary_weight a" "map primary_weight b"]
      compare_weights_flip [of "map primary_weight b" "map primary_weight a"]
      compare_weights_flip [of "map case_weight a" "map case_weight b"]
      compare_weights_flip [of "map case_weight b" "map case_weight a"]
      compare_weights_zero [of "map primary_weight a" "map primary_weight b"]
      compare_weights_zero [of "map primary_weight b" "map primary_weight a"]
    by (auto simp: localeCompare_root_def Let_def)
next
  fix a b c
  assume ab: "localeCompare_root a b \<le> 0" and bc: "localeCompare_root b c \<le> 0"
  let ?p = "map primary_weight" and ?t = "map case_weight"
  from ab consider (l1) "compare_weights (?p a) (?p b) < 0"
    | (e1) "?p a = ?p b" "compare_weights (?t a) (?t b) \<le> 0"
    by (auto simp: localeCompare_root_le)
  then show "localeCompare_root a c \<le> 0"
  proof cases
    case l1
    from bc consider (l2) "compare_weights (?p b) (?p c) < 0" | (e2) "?p b = ?p c"
      by (auto simp: localeCompare_root_le)
    then have "compare_weights (?p a) (?p c) < 0"
    proof cases
      case l2
      with l1 show ?thesis by (rule compare_weights_less_trans)
    next
      case e2
      with l1 show ?thesis by simp
    qed
    then show ?thesis by (simp add: localeCompare_root_le)
  next
    case e1
    from bc consider (l2) "compare_weights (?p b) (?p c) < 0"
      | (e2) "?p b = ?p c" "compare_weights (?t b) (?t c) \<le> 0"
      by (auto simp: localeCompare_root_le)
    then show ?thesis
    proof cases
      case l2
      with e1 show ?thesis by (simp add: localeCompare_root_le)
    next
      case e2
      with e1 have "compare_weights (?t a) (?t c) \<le> 0"
        using compare_weights_trans by blast
      with e1 e2 show ?thesis by (simp add: localeCompare_root_le)
    qed
  qed
qed

subsection \<open>Order of the pages\<close>

lemma items_searchApis_slice:
  "\<exists>start fin. pg_items (searchApis lc query category status limit offset)
      = map r_result (array_slice (combined lc query category status) start fin)"
  by (auto simp: searchApis_def Let_def)

lemma combined_scores:
  assumes "x \<in> set (combined lc query category status)"
  shows "\<exists>api \<in> set catalog_records.
           r_result x = search_result_of api \<and> r_score x = score_for query api"
  using assms by (auto simp: set_combined)

lemma names_sorted_without_query:
  assumes "consistent lc" and "\<not> truthy query"
  shows "sorted_wrt (\<lambda>a b. lc (res_name a) (res_name b) \<le> 0)
           (pg_items (searchApis lc query category status limit offset))"
proof -
  let ?cmb = "combined lc query category status"
  obtain start fin where
    i: "pg_items (searchApis lc query category status limit offset)
        = map r_result (array_slice ?cmb start fin)"
    using items_searchApis_slice by blast
  have z: "r_score x = 0" if "x \<in> set (array_slice ?cmb start fin)" for x
  proof -
    from that have "x \<in> set ?cmb" using set_array_slice by fast
    with assms(2) show ?thesis by (auto simp: set_combined score_for_def)
  qed
  have "sorted_wrt (ranked_before lc) (array_slice ?cmb start fin)"
    by (intro sorted_wrt_array_slice sorted_combined assms(1))
  then have "sorted_wrt (\<lambda>a b. lc (res_name (r_result a)) (res_name (r_result b)) \<le> 0)
               (array_slice ?cmb start fin)"
    by (rule sorted_wrt_mono_rel [rotated]) (simp add: ranked_before_def z)
  then show ?thesis by (simp add: i sorted_wrt_map)
qed

text \<open>
  Claim C3, amended. When the host comparison \<open>lc\<close> is consistent, every slice of the
  ranked sequence is ordered by score, highest first, and on equal scores by name in the
  order of \<open>lc\<close>, the smaller name first; the score of an entry is the relevance score
  of its record, or 0 without a query; the items of a page are the results of such a slice;
  and without a query every page is ordered by name under \<open>lc\<close>. The comparison is the
  host's \<open>localeCompare\<close>, not the order of character codes.
\<close>

theorem search_order:
  assumes "consistent lc"
  shows "sorted_wrt (ranked_before lc) (array_slice (combined lc query category status) start fin)
       \<and> (\<forall>x \<in> set (combined lc query category status). \<exists>api \<in> set catalog_records.
             r_result x = search_result_of api \<and> r_score x = score_for query api)
       \<and> (\<exists>start fin. pg_items (searchApis lc query category status limit offset)
             = map r_result (array_slice (combined lc query category status) start fin))
       \<and> (\<not> truthy query \<longrightarrow>
             sorted_wrt (\<lambda>a b. lc (res_name a) (res_name b) \<le> 0)
               (pg_items (searchApis lc query category status limit offset)))"
proof (intro conjI impI ballI)
  show "sorted_wrt (ranked_before lc) (array_slice (combined lc query category status) start fin)"
    by (intro sorted_wrt_array_slice sorted_combined assms)
next
  fix x assume "x \<in> set (combined lc query category status)"
  then show "\<exists>api \<in> set catalog_records.
               r_result x = search_result_of api \<and> r_score x = score_for query api"
    by (rule combined_scores)
next
  show "\<exists>start fin. pg_items (searchApis lc query category status limit offset)
          = map r_result (array_slice (combined lc query category status) start fin)"
    by (rule items_searchApis_slice)
next
  assume "\<not> truthy query"
  with assms show "sorted_wrt (\<lambda>a b. lc (res_name a) (res_name b) \<le> 0)
                     (pg_items (searchApis lc query category status limit offset))"
    by (rule names_sorted_without_query)
qed

lemma auth_fraud_names:
  "map res_name (pg_items (searchApis localeCompare_root None (Some ''auth-fraud'') None None None))
   = [''Call Forwarding Signal'', ''Number Recycling'', ''Number Verification'',
      ''One-Time Password SMS'', ''Scam Signal'', ''SIM Swap'', ''Verified Caller'']"
  by code_simp

theorem search_order_witness:
  "consistent localeCompare_root
   \<and> sorted_wrt (\<lambda>a b. localeCompare_root (res_name a) (res_name b) \<le> 0)
       (pg_items (searchApis localeCompare_root None (Some ''auth-fraud'') None None None))
   \<and> map res_name (pg_items (searchApis localeCompare_root None (Some ''auth-fraud'') None None None))
       = [''Call Forwarding Signal'', ''Number Recycling'', ''Number Verification'',
          ''One-Time Password SMS'', ''Scam Signal'', ''SIM Swap'', ''Verified Caller'']"
proof -
  have t: "\<not> truthy None" by (simp add: truthy_def)
  from search_order [OF consistent_localeCompare_root, of None "Some ''auth-fraud''" None _ _ None None] t
  have "sorted_wrt (\<lambda>a b. localeCompare_root (res_name a) (res_name b) \<le> 0)
          (pg_items (searchApis localeCompare_root None (Some ''auth-fraud'') None None None))"
    by blast
  with consistent_localeCompare_root auth_fraud_names show ?thesis by blast
qed

text \<open>
  The claim as stated fails: without a query, the search in category \<open>auth-fraud\<close>
  lists "Scam Signal" before "SIM Swap", and in the order of character codes "SIM Swap"
  comes first.
\<close>

theorem search_order_counterexample:
  "\<not> sorted_wrt ordinal_le
       (map res_name
          (pg_items (searchApis localeCompare_root None (Some ''auth-fraud'') None None None)))"
proof -
  have ne: "\<not> sorted_wrt ordinal_le
          [''Call Forwarding Signal'', ''Number Recycling'', ''Number Verification'',
           ''One-Time Password SMS'', ''Scam Signal'', ''SIM Swap'', ''Verified Caller'']"
    by code_simp
  show ?thesis unfolding auth_fraud_names by (rule ne)
qed


subsection \<open>The scenario of the fraud search\<close>

lemma array_slice_whole:
  assumes "int (length xs) \<le> lim" and "0 \<le> lim"
  shows "array_slice xs 0 (0 + lim) = xs"
  using assms by (simp add: array_slice_nonneg)

lemma default_page:
  assumes "length (combined lc query category status) \<le> 20"
  shows "pg_items (searchApis lc query category status None None)
         = map r_result (combined lc query category status)"
  using assms array_slice_whole [of "combined lc query category status" 20]
  by (simp add: searchApis_def Let_def)

lemma set_results_combined:
  "r_result ` set (combined lc query category status)
   = search_result_of ` set (filter (passes query category status) catalog_records)"
  by (auto simp: set_combined image_iff)

lemma length_combined_passes:
  "length (combined lc query category status)
   = length (filter (passes query category status) catalog_records)"
  by (simp add: length_combined catalog_records_def filter_map comp_def)

lemma res_slug_of: "res_slug (search_result_of api) = slug_of api"
  by (cases api) (simp_all add: toSearchResult_def initialToSearchResult_def)

lemma res_category_of: "res_category (search_result_of api) = category_of api"
  by (cases api) (simp_all add: toSearchResult_def initialToSearchResult_def)

lemma fraud_candidates:
  "map (\<lambda>api. (slug_of api, category_of api, mentions api ''fraud''))
     (filter (passes (Some ''fraud'') (Some ''auth-fraud'') None) catalog_records)
   = [(''number-verification'', ''auth-fraud'', True),
      (''sim-swap'', ''auth-fraud'', True),
      (''one-time-password-sms'', ''auth-fraud'', False),
      (''call-forwarding-signal'', ''auth-fraud'', True),
      (''number-recycling'', ''auth-fraud'', False),
      (''scam-signal'', ''auth-fraud'', True),
      (''verified-caller'', ''auth-fraud'', False)]"
  by code_simp

lemma fraud_in_category: "contains_ci ''auth-fraud'' ''fraud''"
  by code_simp

lemma fraud_candidate_facts:
  assumes "api \<in> set (filter (passes (Some ''fraud'') (Some ''auth-fraud'') None) catalog_records)"
  shows "category_of api = ''auth-fraud''
       \<and> (mentions api ''fraud'' \<longleftrightarrow>
            slug_of api \<in> {''number-verification'', ''sim-swap'', ''call-forwarding-signal'',
                           ''scam-signal''})"
proof -
  let ?f = "\<lambda>api. (slug_of api, category_of api, mentions api ''fraud'')"
  from assms have "?f api \<in> set (map ?f
      (filter (passes (Some ''fraud'') (Some ''auth-fraud'') None) catalog_records))"
    unfolding set_map by (rule imageI [of _ _ ?f])
  then show ?thesis unfolding fraud_candidates by auto
qed

lemma fraud_total:
  "length (combined lc (Some ''fraud'') (Some ''auth-fraud'') None) = 7"
proof -
  have "length (map (\<lambda>api. (slug_of api, category_of api, mentions api ''fraud''))
     (filter (passes (Some ''fraud'') (Some ''auth-fraud'') None) catalog_records)) = 7"
    unfolding fraud_candidates by simp
  then show ?thesis by (simp add: length_combined_passes)
qed

lemma fraud_items:
  "pg_items (searchApis lc (Some ''fraud'') (Some ''auth-fraud'') None None None)
   = map r_result (combined lc (Some ''fraud'') (Some ''auth-fraud'') None)"
  by (rule default_page) (simp add: fraud_total)

text \<open>
  Claim C5, amended. The search for "fraud" in category \<open>auth-fraud\<close> returns seven
  records, stable and initial. Every one has category \<open>auth-fraud\<close>, and for every one
  the category identifier contains "fraud"; the description, name, slug, industries or use
  cases contain it for Number Verification, SIM Swap, Call Forwarding Signal and Scam
  Signal only.
\<close>

theorem search_fraud:
  "let r = searchApis lc (Some ''fraud'') (Some ''auth-fraud'') None None None in
     pg_total r = 7 \<and> pg_items r \<noteq> []
     \<and> (\<forall>item \<in> set (pg_items r).
          res_category item = ''auth-fraud''
          \<and> (\<exists>api \<in> set catalog_records.
                item = search_result_of api
                \<and> contains_ci (category_of api) ''fraud''
                \<and> (mentions api ''fraud'' \<longleftrightarrow>
                     slug_of api \<in> {''number-verification'', ''sim-swap'',
                                    ''call-forwarding-signal'', ''scam-signal''})))"
proof -
  let ?r = "searchApis lc (Some ''fraud'') (Some ''auth-fraud'') None None None"
  let ?cands = "filter (passes (Some ''fraud'') (Some ''auth-fraud'') None) catalog_records"
  have t: "pg_total ?r = 7"
    by (simp add: searchApis_def Let_def fraud_total)
  have n: "pg_items ?r \<noteq> []"
    using fraud_total [of lc] by (auto simp: fraud_items)
  have s: "set (pg_items ?r) = search_result_of ` set ?cands"
    by (simp only: fraud_items set_map set_results_combined)
  have "res_category item = ''auth-fraud''
        \<and> (\<exists>api \<in> set catalog_records.
              item = search_result_of api
              \<and> contains_ci (category_of api) ''fraud''
              \<and> (mentions api ''fraud'' \<longleftrightarrow>
                   slug_of api \<in> {''number-verification'', ''sim-swap'',
                                  ''call-forwarding-signal'', ''scam-signal''}))"
    if "item \<in> set (pg_items ?r)" for item
  proof -
    from that s obtain api where a: "api \<in> set ?cands" and i: "item = search_result_of api"
      by auto
    from a have c: "api \<in> set catalog_records" by simp
    from fraud_candidate_facts [OF a] i c fraud_in_category show ?thesis
      by (auto simp: res_category_of)
  qed
  with t n show ?thesis unfolding Let_def by blast
qed

lemma otp_in_catalog: "OfStable one_time_password_sms \<in> set catalog_records"
  by (simp add: catalog_records_def STABLE_APIS_def)

lemma otp_passes:
  "passes (Some ''fraud'') (Some ''auth-fraud'') None (OfStable one_time_password_sms)"
  by code_simp

lemma otp_found:
  "toSearchResult one_time_password_sms \<in> set (pg_items
     (searchApis lc (Some ''fraud'') (Some ''auth-fraud'') None None None))"
proof -
  have "OfStable one_time_password_sms
        \<in> set (filter (passes (Some ''fraud'') (Some ''auth-fraud'') None) catalog_records)"
    using otp_in_catalog otp_passes by simp
  then have "search_result_of (OfStable one_time_password_sms)
        \<in> search_result_of ` set (filter (passes (Some ''fraud'') (Some ''auth-fraud'') None)
             catalog_records)"
    by (rule imageI)
  then show ?thesis
    by (simp only: fraud_items set_map set_results_combined search_result_of.simps)
qed

theorem search_fraud_witness:
  "toSearchResult one_time_password_sms \<in> set (pg_items
     (searchApis localeCompare_root (Some ''fraud'') (Some ''auth-fraud'') None None None))
   \<and> res_category (toSearchResult one_time_password_sms) = ''auth-fraud''
   \<and> pg_total (searchApis localeCompare_root (Some ''fraud'') (Some ''auth-fraud'') None None None) = 7"
  using search_fraud [of localeCompare_root] otp_found [of localeCompare_root]
  unfolding Let_def by blast

text \<open>
  The claim as stated fails: One-Time Password SMS is in the result, and "fraud" is in
  none of its description, name, slug, industries and use cases.
\<close>

theorem search_fraud_counterexample:
  "toSearchResult one_time_password_sms \<in> set (pg_items
     (searchApis localeCompare_root (Some ''fraud'') (Some ''auth-fraud'') None None None))
   \<and> \<not> mentions (OfStable one_time_password_sms) ''fraud''"
proof -
  have "\<not> mentions (OfStable one_time_password_sms) ''fraud''"
    by code_simp
  with otp_found [of localeCompare_root] show ?thesis by blast
qed


subsection \<open>Limits and offsets outside the contract\<close>




lemma catalog_size: "length STABLE_APIS = 10 \<and> length INITIAL_APIS = 21"
  by (simp add: STABLE_APIS_def INITIAL_APIS_def)

lemma length_combined_le: "int (length (combined lc query category status)) \<le> 31"
proof -
  have "length (filter (stableFilter query category status) STABLE_APIS) \<le> 10"
    using length_filter_le [of "stableFilter query category status" STABLE_APIS]
    by (simp add: catalog_size)
  moreover have "length (filter (initialFilter query category status) INITIAL_APIS) \<le> 21"
    using length_filter_le [of "initialFilter query category status" INITIAL_APIS]
    by (simp add: catalog_size)
  ultimately show ?thesis by (simp add: length_combined)
qed








subsection \<open>Detail lookup and comparison\<close>

lemma getApiDetail_None: "getApiDetail slug = None \<longleftrightarrow> \<not> resolves slug"
proof -
  have "getApiDetail slug = None \<longleftrightarrow> find (\<lambda>a. api_slug a = slug) STABLE_APIS = None"
    by (simp add: getApiDetail_def split: option.splits)
  also have "\<dots> \<longleftrightarrow> \<not> (\<exists>a. a \<in> set STABLE_APIS \<and> api_slug a = slug)"
    by (rule find_None_iff)
  also have "\<dots> \<longleftrightarrow> \<not> resolves slug"
    unfolding resolves_def by blast
  finally show ?thesis .
qed

lemma getApiDetail_Some:
  assumes "resolves slug"
  shows "\<exists>a \<in> set STABLE_APIS. api_slug a = slug \<and> getApiDetail slug = Some (detail_of a)"
proof -
  from assms obtain a where f: "find (\<lambda>a. api_slug a = slug) STABLE_APIS = Some a"
    by (cases "find (\<lambda>a. api_slug a = slug) STABLE_APIS")
       (auto simp: resolves_def find_None_iff)
  then have "a \<in> set STABLE_APIS" and "api_slug a = slug"
    by (auto simp: find_Some_iff)
  with f show ?thesis by (auto simp: getApiDetail_def)
qed

lemma resolves_iff: "resolves s \<longleftrightarrow> (\<exists>d. getApiDetail s = Some d)"
  using getApiDetail_None [of s] by (cases "getApiDetail s") auto

lemma details_resolved:
  "map the (filter (\<lambda>d. d \<noteq> None) (map getApiDetail slugs))
   = map (\<lambda>s. the (getApiDetail s)) (filter resolves slugs)"
  by (induction slugs) (simp_all add: resolves_iff)

lemma camara_compare_apis_resolved:
  "camara_compare_apis slugs
   = (if length (filter resolves slugs) < 2
      then Inl (''Need at least 2 valid stable API slugs. Valid: ''
                @ join '', '' (map api_slug STABLE_APIS))
      else Inr (map (\<lambda>s. the (getApiDetail s)) (filter resolves slugs)))"
  unfolding camara_compare_apis_def details_resolved Let_def by simp

lemma detail_sim_swap: "getApiDetail ''sim-swap'' = Some (detail_of sim_swap)"
  by code_simp

lemma detail_device_swap: "getApiDetail ''device-swap'' = Some (detail_of device_swap)"
  by code_simp

lemma detail_unknown: "getApiDetail ''not-a-real-slug'' = None"
  by code_simp

lemma valid_slugs:
  "join '', '' (map api_slug STABLE_APIS)
   = ''number-verification, sim-swap, location-verification, device-reachability-status, device-roaming-status, one-time-password-sms, quality-on-demand, qos-profiles, simple-edge-discovery, device-swap''"
  by code_simp

lemma resolves_sim_swap: "resolves ''sim-swap''"
  using detail_sim_swap getApiDetail_None [of "''sim-swap''"] by simp

lemma resolves_device_swap: "resolves ''device-swap''"
  using detail_device_swap getApiDetail_None [of "''device-swap''"] by simp

lemma resolves_unknown: "\<not> resolves ''not-a-real-slug''"
  using detail_unknown getApiDetail_None [of "''not-a-real-slug''"] by simp

text \<open>
  Claim C7. Each slug is looked up among the stable records and the slugs that do not
  resolve are dropped. When at least two resolve, the comparison has one detail projection
  for each resolved slug, in the order of the request; when fewer than two resolve, it is
  the error whose message lists the slugs of the stable records. A resolved slug projects
  a stable record with that slug. \<open>["sim-swap", "device-swap"]\<close> gives the two
  projections in that order, and \<open>["sim-swap", "not-a-real-slug"]\<close> gives the error.
\<close>

theorem compare_resolution:
  "(2 \<le> length (filter resolves slugs) \<longrightarrow>
      camara_compare_apis slugs
      = Inr (map (\<lambda>s. the (getApiDetail s)) (filter resolves slugs)))
   \<and> (length (filter resolves slugs) < 2 \<longrightarrow>
        camara_compare_apis slugs
        = Inl (''Need at least 2 valid stable API slugs. Valid: ''
               @ join '', '' (map api_slug STABLE_APIS)))
   \<and> (\<forall>s. resolves s \<longrightarrow>
          (\<exists>a \<in> set STABLE_APIS. api_slug a = s \<and> getApiDetail s = Some (detail_of a)))
   \<and> camara_compare_apis [''sim-swap'', ''device-swap'']
       = Inr [detail_of sim_swap, detail_of device_swap]
   \<and> camara_compare_apis [''sim-swap'', ''not-a-real-slug'']
       = Inl ''Need at least 2 valid stable API slugs. Valid: number-verification, sim-swap, location-verification, device-reachability-status, device-roaming-status, one-time-password-sms, quality-on-demand, qos-profiles, simple-edge-discovery, device-swap''"
proof (intro conjI impI allI)
  assume "2 \<le> length (filter resolves slugs)"
  then show "camara_compare_apis slugs
      = Inr (map (\<lambda>s. the (getApiDetail s)) (filter resolves slugs))"
    by (simp add: camara_compare_apis_resolved)
next
  assume "length (filter resolves slugs) < 2"
  then show "camara_compare_apis slugs
        = Inl (''Need at least 2 valid stable API slugs. Valid: ''
               @ join '', '' (map api_slug STABLE_APIS))"
    by (simp add: camara_compare_apis_resolved)
next
  fix s assume "resolves s"
  then show "\<exists>a \<in> set STABLE_APIS. api_slug a = s \<and> getApiDetail s = Some (detail_of a)"
    by (rule getApiDetail_Some)
next
  show "camara_compare_apis [''sim-swap'', ''device-swap'']
       = Inr [detail_of sim_swap, detail_of device_swap]"
    by (simp add: camara_compare_apis_resolved resolves_sim_swap resolves_device_swap
        detail_sim_swap detail_device_swap)
next
  show "camara_compare_apis [''sim-swap'', ''not-a-real-slug'']
       = Inl ''Need at least 2 valid stable API slugs. Valid: number-verification, sim-swap, location-verification, device-reachability-status, device-roaming-status, one-time-password-sms, quality-on-demand, qos-profiles, simple-edge-discovery, device-swap''"
    by (simp add: camara_compare_apis_resolved resolves_sim_swap resolves_unknown valid_slugs)
qed

theorem compare_resolution_witness:
  "2 \<le> length (filter resolves [''device-swap'', ''nothing'', ''sim-swap''])
   \<and> resolves ''sim-swap''
   \<and> camara_compare_apis [''device-swap'', ''nothing'', ''sim-swap'']
       = Inr [detail_of device_swap, detail_of sim_swap]
   \<and> (\<exists>a \<in> set STABLE_APIS. api_slug a = ''sim-swap''
          \<and> getApiDetail ''sim-swap'' = Some (detail_of a))"
proof -
  have n: "\<not> resolves ''nothing''"
    unfolding getApiDetail_None [symmetric] by code_simp
  have f: "filter resolves [''device-swap'', ''nothing'', ''sim-swap''] = [''device-swap'', ''sim-swap'']"
    using n resolves_sim_swap resolves_device_swap by simp
  then have l: "2 \<le> length (filter resolves [''device-swap'', ''nothing'', ''sim-swap''])"
    by simp
  from compare_resolution [of "[''device-swap'', ''nothing'', ''sim-swap'']"] l
  have "camara_compare_apis [''device-swap'', ''nothing'', ''sim-swap'']
        = Inr (map (\<lambda>s. the (getApiDetail s))
                 (filter resolves [''device-swap'', ''nothing'', ''sim-swap'']))"
    by blast
  then have c: "camara_compare_apis [''device-swap'', ''nothing'', ''sim-swap'']
       = Inr [detail_of device_swap, detail_of sim_swap]"
    unfolding f by (simp add: detail_sim_swap detail_device_swap)
  from compare_resolution [of "[]"] resolves_sim_swap
  have "\<exists>a \<in> set STABLE_APIS. api_slug a = ''sim-swap''
          \<and> getApiDetail ''sim-swap'' = Some (detail_of a)"
    by blast
  with l c resolves_sim_swap show ?thesis by blast
qed

text \<open>
  Claim C10. The comparison does not remove duplicates. A resolved slug given twice
  counts twice and gives its projection twice: the request \<open>[s, s]\<close> succeeds for every
  resolved \<open>s\<close>, and \<open>["sim-swap", "sim-swap"]\<close> gives the projection of SIM Swap twice.
  In every comparison that succeeds there are as many projections as there are resolved
  slugs in the request, each occurrence counted.
\<close>

theorem compare_duplicates:
  "(\<forall>s. resolves s \<longrightarrow>
       camara_compare_apis [s, s] = Inr [the (getApiDetail s), the (getApiDetail s)])
   \<and> camara_compare_apis [''sim-swap'', ''sim-swap'']
       = Inr [detail_of sim_swap, detail_of sim_swap]
   \<and> (\<forall>slugs details. camara_compare_apis slugs = Inr details \<longrightarrow>
          length details = length (filter resolves slugs))"
proof (intro conjI allI impI)
  fix slugs details assume "camara_compare_apis slugs = Inr details"
  then show "length details = length (filter resolves slugs)"
    by (auto simp: camara_compare_apis_resolved split: if_splits)
next
  fix s assume "resolves s"
  then show "camara_compare_apis [s, s] = Inr [the (getApiDetail s), the (getApiDetail s)]"
    by (simp add: camara_compare_apis_resolved)
next
  show "camara_compare_apis [''sim-swap'', ''sim-swap'']
       = Inr [detail_of sim_swap, detail_of sim_swap]"
    by (simp add: camara_compare_apis_resolved resolves_sim_swap detail_sim_swap)
qed

theorem compare_duplicates_witness:
  "resolves ''device-swap''
   \<and> camara_compare_apis [''device-swap'', ''device-swap'']
       = Inr [detail_of device_swap, detail_of device_swap]"
proof -
  from compare_duplicates resolves_device_swap
  have "camara_compare_apis [''device-swap'', ''device-swap'']
        = Inr [the (getApiDetail ''device-swap''), the (getApiDetail ''device-swap'')]"
    by blast
  then show ?thesis using resolves_device_swap by (simp add: detail_device_swap)
qed


subsection \<open>Search for stable records and detail lookup\<close>

lemma initialFilter_stable: "\<not> initialFilter query category (Some ''stable'') a"
  by (simp add: initialFilter_def split: if_splits)

lemma stable_search_items:
  assumes "item \<in> set (pg_items (searchApis lc query category (Some ''stable'') limit offset))"
  shows "\<exists>a \<in> set STABLE_APIS. item = toSearchResult a"
proof -
  let ?cmb = "combined lc query category (Some ''stable'')"
  obtain start fin where
    "pg_items (searchApis lc query category (Some ''stable'') limit offset)
     = map r_result (array_slice ?cmb start fin)"
    using items_searchApis_slice by blast
  with assms obtain x where "x \<in> set (array_slice ?cmb start fin)" and i: "item = r_result x"
    by auto
  then have "x \<in> set ?cmb" using set_array_slice by fast
  then obtain api where c: "api \<in> set catalog_records"
    and p: "passes query category (Some ''stable'') api"
    and r: "r_result x = search_result_of api"
    by (auto simp: set_combined)
  show ?thesis
  proof (cases api)
    case (OfStable a)
    with c have "a \<in> set STABLE_APIS" by (auto simp: catalog_records_def)
    with OfStable r i show ?thesis by auto
  next
    case (OfInitial a)
    with p show ?thesis by (simp add: initialFilter_stable)
  qed
qed

lemma initial_slugs_unresolved: "\<forall>a \<in> set INITIAL_APIS. getApiDetail (ini_slug a) = None"
  by code_simp

text \<open>
  Claim C8. The detail lookup succeeds on the slug of every item that a search with status
  "stable" returns. It returns the not-found value for every slug that no stable record
  has, and so for the slug of every initial record of the catalog.
\<close>

theorem detail_of_stable_results:
  "(\<forall>item \<in> set (pg_items (searchApis lc query category (Some ''stable'') limit offset)).
      getApiDetail (res_slug item) \<noteq> None)
   \<and> (\<forall>slug. \<not> (\<exists>a \<in> set STABLE_APIS. api_slug a = slug) \<longrightarrow> getApiDetail slug = None)
   \<and> (\<forall>a \<in> set INITIAL_APIS. getApiDetail (ini_slug a) = None)"
proof (intro conjI ballI allI impI)
  fix item
  assume "item \<in> set (pg_items (searchApis lc query category (Some ''stable'') limit offset))"
  then obtain a where "a \<in> set STABLE_APIS" and "item = toSearchResult a"
    using stable_search_items by blast
  then have "resolves (res_slug item)"
    by (auto simp: resolves_def toSearchResult_def)
  then show "getApiDetail (res_slug item) \<noteq> None"
    by (simp add: getApiDetail_None)
next
  fix slug assume "\<not> (\<exists>a \<in> set STABLE_APIS. api_slug a = slug)"
  then show "getApiDetail slug = None"
    by (simp add: getApiDetail_None resolves_def)
next
  fix a assume "a \<in> set INITIAL_APIS"
  then show "getApiDetail (ini_slug a) = None"
    using initial_slugs_unresolved by blast
qed

lemma sms_initial: "sms \<in> set INITIAL_APIS"
  by (simp add: INITIAL_APIS_def)

lemma device_swap_found:
  "toSearchResult device_swap
   \<in> set (pg_items (searchApis localeCompare_root None None (Some ''stable'') None None))"
proof -
  have p: "passes None None (Some ''stable'') (OfStable device_swap)"
    by code_simp
  have "OfStable device_swap \<in> set catalog_records"
    by (simp add: catalog_records_def STABLE_APIS_def)
  with p have "OfStable device_swap
      \<in> set (filter (passes None None (Some ''stable'')) catalog_records)"
    by simp
  then have m: "search_result_of (OfStable device_swap)
      \<in> search_result_of ` set (filter (passes None None (Some ''stable'')) catalog_records)"
    by (rule imageI)
  have "int (length (combined localeCompare_root None None (Some ''stable''))) \<le> 31"
    by (rule length_combined_le)
  moreover have "length (filter (initialFilter None None (Some ''stable'')) INITIAL_APIS) = 0"
    by (simp add: initialFilter_stable)
  ultimately have "length (combined localeCompare_root None None (Some ''stable'')) \<le> 20"
    using length_filter_le [of "stableFilter None None (Some ''stable'')" STABLE_APIS]
    by (simp add: length_combined catalog_size)
  then have "pg_items (searchApis localeCompare_root None None (Some ''stable'') None None)
      = map r_result (combined localeCompare_root None None (Some ''stable''))"
    by (rule default_page)
  with m show ?thesis
    by (simp only: set_map set_results_combined search_result_of.simps)
qed

theorem detail_of_stable_results_witness:
  "toSearchResult device_swap
     \<in> set (pg_items (searchApis localeCompare_root None None (Some ''stable'') None None))
   \<and> getApiDetail (res_slug (toSearchResult device_swap)) \<noteq> None
   \<and> \<not> (\<exists>a \<in> set STABLE_APIS. api_slug a = ''sms'')
   \<and> getApiDetail ''sms'' = None
   \<and> sms \<in> set INITIAL_APIS
   \<and> getApiDetail (ini_slug sms) = None"
proof -
  note t = detail_of_stable_results [of localeCompare_root None None None None]
  from t device_swap_found
  have 1: "getApiDetail (res_slug (toSearchResult device_swap)) \<noteq> None" by blast
  from t sms_initial have 2: "getApiDetail (ini_slug sms) = None" by blast
  have 3: "\<not> (\<exists>a \<in> set STABLE_APIS. api_slug a = ''sms'')"
    by code_simp
  with t have 4: "getApiDetail ''sms'' = None" by blast
  from 1 2 3 4 device_swap_found sms_initial show ?thesis by blast
qed


subsection \<open>The search leaves the store as it needs it\<close>

lemma module_loaded_holds:
  "module_loaded st \<longleftrightarrow>
     holds st STABLE_APIS_ref (StableArr STABLE_APIS)
     \<and> holds st INITIAL_APIS_ref (InitialArr INITIAL_APIS)"
  by (auto simp: module_loaded_def holds_def)

lemma new_array_holds:
  assumes "new_array c st = (a, st')"
  shows "holds st' a c"
    and "\<And>b d. holds st b d \<Longrightarrow> holds st' b d"
    and "\<And>b d. holds st b d \<Longrightarrow> b \<noteq> a"
    and "host_locale st' = host_locale st"
  using assms by (auto simp: new_array_def holds_def)

lemma sort_in_place_holds:
  assumes "sort_in_place cmp a st = (a', st')" and "holds st a (ScoredArr xs)"
  shows "a' = a"
    and "holds st' a (ScoredArr (array_sort cmp xs))"
    and "\<And>b d. holds st b d \<Longrightarrow> b \<noteq> a \<Longrightarrow> holds st' b d"
    and "host_locale st' = host_locale st"
  using assms by (auto simp: sort_in_place_def holds_def scored_at_def)

lemma read_holds:
  "holds st a (StableArr xs1) \<Longrightarrow> stable_at st a = xs1"
  "holds st a (InitialArr xs2) \<Longrightarrow> initial_at st a = xs2"
  "holds st a (StableScoredArr xs3) \<Longrightarrow> stable_scored_at st a = xs3"
  "holds st a (InitialScoredArr xs4) \<Longrightarrow> initial_scored_at st a = xs4"
  "holds st a (ScoredArr xs5) \<Longrightarrow> scored_at st a = xs5"
  "holds st a (ResultArr xs6) \<Longrightarrow> results_at st a = xs6"
  by (simp_all add: holds_def stable_at_def initial_at_def stable_scored_at_def
      initial_scored_at_def scored_at_def results_at_def)

lemma module_loaded_new_array:
  assumes "new_array c st = (a, st')" and "module_loaded st"
  shows "module_loaded st'"
  using assms new_array_holds(2) [OF assms(1)] by (simp add: module_loaded_holds)

lemma searchApis_store_run:
  assumes "module_loaded st"
  shows "\<exists>st'. searchApis_store lc query category status limit offset st
               = (searchApis (lc (host_locale st)) query category status limit offset, st')
             \<and> module_loaded st' \<and> host_locale st' = host_locale st"
proof -
  define lim where "lim = (case limit of None \<Rightarrow> 20 | Some l \<Rightarrow> l)"
  define off where "off = (case offset of None \<Rightarrow> 0 | Some n \<Rightarrow> n)"
  define score_stable where "score_stable =
    (\<lambda>api. (api, if truthy query then searchScore (OfStable api) (the query) else 0))"
  define score_initial where "score_initial =
    (\<lambda>api. (api, if truthy query then searchScore (OfInitial api) (the query) else 0))"
  define to_stable where "to_stable =
    (\<lambda>r :: CamaraApi \<times> int. \<lparr> r_score = snd r, r_result = toSearchResult (fst r) \<rparr>)"
  define to_initial where "to_initial =
    (\<lambda>r :: InitialApi \<times> int. \<lparr> r_score = snd r, r_result = initialToSearchResult (fst r) \<rparr>)"
  define kept_s where "kept_s = filter (stableFilter query category status) STABLE_APIS"
  define kept_i where "kept_i = filter (initialFilter query category status) INITIAL_APIS"
  define cmb where "cmb = array_sort (compareFn (lc (host_locale st)))
                            (map to_stable (map score_stable kept_s)
                             @ map to_initial (map score_initial kept_i))"
  define paged where "paged = array_slice cmb off (off + lim)"

  obtain r1 st1 where e1: "new_array (ResultArr []) st = (r1, st1)"
    by (cases "new_array (ResultArr []) st")
  have m1: "module_loaded st1" using e1 assms by (rule module_loaded_new_array)
  have l1: "host_locale st1 = host_locale st" using e1 by (rule new_array_holds(4))

  obtain r2 st2 where e2: "new_array (StableArr (filter (stableFilter query category status)
      (stable_at st1 STABLE_APIS_ref))) st1 = (r2, st2)"
    by (cases "new_array (StableArr (filter (stableFilter query category status)
      (stable_at st1 STABLE_APIS_ref))) st1")
  have "stable_at st1 STABLE_APIS_ref = STABLE_APIS"
    using m1 by (simp add: module_loaded_holds read_holds)
  then have h2: "holds st2 r2 (StableArr kept_s)"
    using new_array_holds(1) [OF e2] by (simp add: kept_s_def)
  have m2: "module_loaded st2" using e2 m1 by (rule module_loaded_new_array)
  have l2: "host_locale st2 = host_locale st" using new_array_holds(4) [OF e2] l1 by simp

  obtain r3 st3 where e3: "new_array (StableScoredArr (map score_stable
      (stable_at st2 r2))) st2 = (r3, st3)"
    by (cases "new_array (StableScoredArr (map score_stable (stable_at st2 r2))) st2")
  have h3: "holds st3 r3 (StableScoredArr (map score_stable kept_s))"
    using new_array_holds(1) [OF e3] h2 by (simp add: read_holds)
  have m3: "module_loaded st3" using e3 m2 by (rule module_loaded_new_array)
  have l3: "host_locale st3 = host_locale st" using new_array_holds(4) [OF e3] l2 by simp

  obtain r4 st4 where e4: "new_array (InitialArr (filter (initialFilter query category status)
      (initial_at st3 INITIAL_APIS_ref))) st3 = (r4, st4)"
    by (cases "new_array (InitialArr (filter (initialFilter query category status)
      (initial_at st3 INITIAL_APIS_ref))) st3")
  have "initial_at st3 INITIAL_APIS_ref = INITIAL_APIS"
    using m3 by (simp add: module_loaded_holds read_holds)
  then have h4: "holds st4 r4 (InitialArr kept_i)"
    using new_array_holds(1) [OF e4] by (simp add: kept_i_def)
  have h3': "holds st4 r3 (StableScoredArr (map score_stable kept_s))"
    using h3 by (rule new_array_holds(2) [OF e4])
  have m4: "module_loaded st4" using e4 m3 by (rule module_loaded_new_array)
  have l4: "host_locale st4 = host_locale st" using new_array_holds(4) [OF e4] l3 by simp

  obtain r5 st5 where e5: "new_array (InitialScoredArr (map score_initial
      (initial_at st4 r4))) st4 = (r5, st5)"
    by (cases "new_array (InitialScoredArr (map score_initial (initial_at st4 r4))) st4")
  have h5: "holds st5 r5 (InitialScoredArr (map score_initial kept_i))"
    using new_array_holds(1) [OF e5] h4 by (simp add: read_holds)
  have h3'': "holds st5 r3 (StableScoredArr (map score_stable kept_s))"
    using h3' by (rule new_array_holds(2) [OF e5])
  have m5: "module_loaded st5" using e5 m4 by (rule module_loaded_new_array)
  have l5: "host_locale st5 = host_locale st" using new_array_holds(4) [OF e5] l4 by simp

  obtain r6 st6 where e6: "new_array (ScoredArr (map to_stable
      (stable_scored_at st5 r3))) st5 = (r6, st6)"
    by (cases "new_array (ScoredArr (map to_stable (stable_scored_at st5 r3))) st5")
  have h6: "holds st6 r6 (ScoredArr (map to_stable (map score_stable kept_s)))"
    using new_array_holds(1) [OF e6] h3'' by (simp add: read_holds)
  have h5': "holds st6 r5 (InitialScoredArr (map score_initial kept_i))"
    using h5 by (rule new_array_holds(2) [OF e6])
  have m6: "module_loaded st6" using e6 m5 by (rule module_loaded_new_array)
  have l6: "host_locale st6 = host_locale st" using new_array_holds(4) [OF e6] l5 by simp

  obtain r7 st7 where e7: "new_array (ScoredArr (map to_initial
      (initial_scored_at st6 r5))) st6 = (r7, st7)"
    by (cases "new_array (ScoredArr (map to_initial (initial_scored_at st6 r5))) st6")
  have h7: "holds st7 r7 (ScoredArr (map to_initial (map score_initial kept_i)))"
    using new_array_holds(1) [OF e7] h5' by (simp add: read_holds)
  have h6': "holds st7 r6 (ScoredArr (map to_stable (map score_stable kept_s)))"
    using h6 by (rule new_array_holds(2) [OF e7])
  have m7: "module_loaded st7" using e7 m6 by (rule module_loaded_new_array)
  have l7: "host_locale st7 = host_locale st" using new_array_holds(4) [OF e7] l6 by simp

  obtain r8 st8 where e8: "new_array (ScoredArr (scored_at st7 r6 @ scored_at st7 r7)) st7
      = (r8, st8)"
    by (cases "new_array (ScoredArr (scored_at st7 r6 @ scored_at st7 r7)) st7")
  have h8: "holds st8 r8 (ScoredArr (map to_stable (map score_stable kept_s)
                                     @ map to_initial (map score_initial kept_i)))"
    using new_array_holds(1) [OF e8] h6' h7 by (simp add: read_holds)
  have m8: "module_loaded st8" using e8 m7 by (rule module_loaded_new_array)
  have l8: "host_locale st8 = host_locale st" using new_array_holds(4) [OF e8] l7 by simp
  have n8: "STABLE_APIS_ref \<noteq> r8" "INITIAL_APIS_ref \<noteq> r8"
    using m7 new_array_holds(3) [OF e8] by (auto simp: module_loaded_holds)

  obtain r9 st9 where e9: "sort_in_place (compareFn (lc (host_locale st8))) r8 st8 = (r9, st9)"
    by (cases "sort_in_place (compareFn (lc (host_locale st8))) r8 st8")
  have r9: "r9 = r8" using e9 h8 by (rule sort_in_place_holds(1))
  have h9: "holds st9 r9 (ScoredArr cmb)"
    using sort_in_place_holds(2) [OF e9 h8] by (simp add: r9 cmb_def l8)
  have m9: "module_loaded st9"
    using m8 n8 sort_in_place_holds(3) [OF e9 h8] by (simp add: module_loaded_holds)
  have l9: "host_locale st9 = host_locale st" using sort_in_place_holds(4) [OF e9 h8] l8 by simp

  obtain r10 st10 where e10: "new_array (ScoredArr (array_slice (scored_at st9 r9)
      off (off + lim))) st9 = (r10, st10)"
    by (cases "new_array (ScoredArr (array_slice (scored_at st9 r9) off (off + lim))) st9")
  have h10: "holds st10 r10 (ScoredArr paged)"
    using new_array_holds(1) [OF e10] h9 by (simp add: read_holds paged_def)
  have m10: "module_loaded st10" using e10 m9 by (rule module_loaded_new_array)
  have l10: "host_locale st10 = host_locale st" using new_array_holds(4) [OF e10] l9 by simp

  obtain r11 st11 where e11: "new_array (ResultArr (map r_result (scored_at st10 r10))) st10
      = (r11, st11)"
    by (cases "new_array (ResultArr (map r_result (scored_at st10 r10))) st10")
  have h11: "holds st11 r11 (ResultArr (map r_result paged))"
    using new_array_holds(1) [OF e11] h10 by (simp add: read_holds)
  have m11: "module_loaded st11" using e11 m10 by (rule module_loaded_new_array)
  have l11: "host_locale st11 = host_locale st" using new_array_holds(4) [OF e11] l10 by simp

  have total: "scored_at st9 r9 = cmb" using h9 by (simp add: read_holds)
  have count: "scored_at st10 r10 = paged" using h10 by (simp add: read_holds)
  have items: "results_at st11 r11 = map r_result paged" using h11 by (simp add: read_holds)

  have run: "searchApis_store lc query category status limit offset st
      = (\<lparr> pg_total = int (length (scored_at st9 r9)),
            pg_count = int (length (scored_at st10 r10)),
            pg_offset = off,
            pg_items = results_at st11 r11,
            pg_has_more = (int (length (scored_at st9 r9)) > off + int (length (scored_at st10 r10))),
            pg_next_offset =
              (if int (length (scored_at st9 r9)) > off + int (length (scored_at st10 r10))
               then Some (off + int (length (scored_at st10 r10))) else None) \<rparr>,
         st11)"
    unfolding searchApis_store_def
    unfolding lim_def [symmetric] off_def [symmetric] score_stable_def [symmetric]
      score_initial_def [symmetric] to_stable_def [symmetric] to_initial_def [symmetric]
    by (simp only: Let_def e1 e2 e3 e4 e5 e6 e7 e8 e9 e10 e11 prod.case)
  have pure: "combined (lc (host_locale st)) query category status = cmb"
    by (simp add: combined_def stableResults_def initialResults_def cmb_def kept_s_def
        kept_i_def score_stable_def score_initial_def to_stable_def to_initial_def)
  have "searchApis (lc (host_locale st)) query category status limit offset
      = \<lparr> pg_total = int (length cmb),
          pg_count = int (length paged),
          pg_offset = off,
          pg_items = map r_result paged,
          pg_has_more = (int (length cmb) > off + int (length paged)),
          pg_next_offset = (if int (length cmb) > off + int (length paged)
                            then Some (off + int (length paged)) else None) \<rparr>"
    unfolding searchApis_def pure lim_def [symmetric] off_def [symmetric]
    by (simp add: Let_def paged_def)
  with run total count items m11 l11 show ?thesis by simp
qed

lemma module_store_loaded: "module_loaded (module_store loc)"
  by (simp add: module_loaded_def module_store_def STABLE_APIS_ref_def INITIAL_APIS_ref_def)

lemma swap_names:
  "map res_name (pg_items (searchApis localeCompare_root (Some ''swap'') None None (Some 2) None))
   = [''Device Swap'', ''SIM Swap'']"
  by code_simp

text \<open>
  Claim C9. Take a store that holds the catalog, and a call of the search. A second call
  with the same query, category, status, limit and offset returns the same response, items
  in the same order and the same pagination fields: when it follows the first at once, when
  a search with other arguments has run in between, and from any store that holds the
  catalog under the same host locale. For a call changes neither the catalog nor the
  locale: the one array it sorts is an array it has made. The response is the one
  \<open>searchApis\<close> gives.
\<close>

theorem searchApis_deterministic:
  assumes "module_loaded st"
  shows "fst (searchApis_store lc query category status limit offset
                (snd (searchApis_store lc query category status limit offset st)))
         = fst (searchApis_store lc query category status limit offset st)
       \<and> fst (searchApis_store lc query category status limit offset
                (snd (searchApis_store lc query' category' status' limit' offset' st)))
         = fst (searchApis_store lc query category status limit offset st)
       \<and> (\<forall>st'. module_loaded st' \<and> host_locale st' = host_locale st \<longrightarrow>
              fst (searchApis_store lc query category status limit offset st')
              = fst (searchApis_store lc query category status limit offset st))
       \<and> module_loaded (snd (searchApis_store lc query category status limit offset st))
       \<and> host_locale (snd (searchApis_store lc query category status limit offset st))
         = host_locale st
       \<and> fst (searchApis_store lc query category status limit offset st)
         = searchApis (lc (host_locale st)) query category status limit offset"
proof -
  have response: "fst (searchApis_store lc q c s l f t) = searchApis (lc (host_locale t)) q c s l f"
    and loaded: "module_loaded (snd (searchApis_store lc q c s l f t))"
    and kept_locale: "host_locale (snd (searchApis_store lc q c s l f t)) = host_locale t"
    if "module_loaded t" for q c s l f t
    using searchApis_store_run [OF that, of lc q c s l f] by auto
  have same: "fst (searchApis_store lc query category status limit offset st')
              = fst (searchApis_store lc query category status limit offset st)"
    if "module_loaded st'" and "host_locale st' = host_locale st" for st'
    using that response [OF that(1)] response [OF assms] by simp
  have 1: "fst (searchApis_store lc query category status limit offset
                (snd (searchApis_store lc query category status limit offset st)))
         = fst (searchApis_store lc query category status limit offset st)"
    by (intro same loaded kept_locale assms)
  have 2: "fst (searchApis_store lc query category status limit offset
                (snd (searchApis_store lc query' category' status' limit' offset' st)))
         = fst (searchApis_store lc query category status limit offset st)"
    by (intro same loaded kept_locale assms)
  from 1 2 same loaded [OF assms] kept_locale [OF assms] response [OF assms]
  show ?thesis by blast
qed

theorem searchApis_deterministic_witness:
  "module_loaded (module_store ''en-US'')
   \<and> fst (searchApis_store (\<lambda>loc. localeCompare_root) (Some ''swap'') None None (Some 2) None
           (snd (searchApis_store (\<lambda>loc. localeCompare_root) (Some ''swap'') None None
                   (Some 2) None (module_store ''en-US''))))
     = fst (searchApis_store (\<lambda>loc. localeCompare_root) (Some ''swap'') None None (Some 2) None
             (module_store ''en-US''))
   \<and> map res_name (pg_items (fst (searchApis_store (\<lambda>loc. localeCompare_root)
         (Some ''swap'') None None (Some 2) None (module_store ''en-US''))))
     = [''Device Swap'', ''SIM Swap'']"
proof -
  note t = searchApis_deterministic [OF module_store_loaded,
      of "\<lambda>loc. localeCompare_root" "Some ''swap''" None None "Some 2" None "''en-US''"]
  from t have 1: "fst (searchApis_store (\<lambda>loc. localeCompare_root) (Some ''swap'') None None
         (Some 2) None
           (snd (searchApis_store (\<lambda>loc. localeCompare_root) (Some ''swap'') None None
                   (Some 2) None (module_store ''en-US''))))
     = fst (searchApis_store (\<lambda>loc. localeCompare_root) (Some ''swap'') None None (Some 2) None
             (module_store ''en-US''))"
    by blast
  from t have "fst (searchApis_store (\<lambda>loc. localeCompare_root) (Some ''swap'') None None
         (Some 2) None (module_store ''en-US''))
     = searchApis localeCompare_root (Some ''swap'') None None (Some 2) None"
    by blast
  then have 2: "map res_name (pg_items (fst (searchApis_store (\<lambda>loc. localeCompare_root)
         (Some ''swap'') None None (Some 2) None (module_store ''en-US''))))
     = [''Device Swap'', ''SIM Swap'']"
    by (simp only: swap_names)
  from module_store_loaded 1 2 show ?thesis by blast
qed

end
